theory Spec2Isabelle
  imports Main "HOL-Library.Word" "HOL-Library.Sublist"
begin

section \<open>The autocorrect commands of the editor\<close>

text \<open>
  This theory embeds the three key handlers of the autocorrect plugin
  (\<^verbatim>\<open>handleReplacement\<close>, \<^verbatim>\<open>handleBackspace\<close>, \<^verbatim>\<open>handleQuote\<close>) together with
  \<^verbatim>\<open>posInProtectedNode\<close> and the constant \<^verbatim>\<open>startChars\<close>.

  A JavaScript string is a sequence of UTF-16 code units, and document positions of the
  editor count code units as well, so a string is a list of 16-bit words and
  \<^verbatim>\<open>s.length\<close> is the length of the list.  Positions are JavaScript numbers that the
  code subtracts from (\<^verbatim>\<open>range.from - 1\<close> may be \<open>-1\<close>), so they are integers.
\<close>

subsection \<open>Strings\<close>

type_synonym jschar = "16 word"
type_synonym jsstring = "jschar list"

definition str_dashes :: jsstring where \<comment> \<open>\<^verbatim>\<open>'---'\<close>\<close>
  "str_dashes = [0x2D, 0x2D, 0x2D]"

definition str_dots :: jsstring where \<comment> \<open>\<^verbatim>\<open>'...'\<close>\<close>
  "str_dots = [0x2E, 0x2E, 0x2E]"

definition str_dquote :: jsstring where \<comment> \<open>the plain double quote, U+0022\<close>
  "str_dquote = [0x22]"

definition str_squote :: jsstring where \<comment> \<open>the plain single quote, U+0027\<close>
  "str_squote = [0x27]"

definition chr_ellipsis :: jschar where \<comment> \<open>the separator U+2026 of a magic-quote setting\<close>
  "chr_ellipsis = 0x2026"

definition chr_newline :: jschar where
  "chr_newline = 0x0A"

text \<open>
  \<^verbatim>\<open>const startChars = ' ([{-' + en-dash + em-dash\<close>: space, the three opening brackets,
  the hyphen, U+2013 and U+2014.
\<close>

definition startChars :: jsstring where
  "startChars = [0x20, 0x28, 0x5B, 0x7B, 0x2D, 0x2013, 0x2014]"

text \<open>\<^verbatim>\<open>s.endsWith(k)\<close>: the last \<open>k.length\<close> code units of \<open>s\<close> are \<open>k\<close>.\<close>

definition endsWith :: "jsstring \<Rightarrow> jsstring \<Rightarrow> bool" where
  "endsWith s k \<longleftrightarrow> length k \<le> length s \<and> drop (length s - length k) s = k"

text \<open>
  \<^verbatim>\<open>s.includes(sub)\<close> on strings is a substring test: \<open>sub\<close> occurs at some index of
  \<open>s\<close>.  In particular the empty string is included in every string.
\<close>

fun str_includes :: "jsstring \<Rightarrow> jsstring \<Rightarrow> bool" where
  "str_includes [] sub \<longleftrightarrow> sub = []"
| "str_includes (c # cs) sub \<longleftrightarrow> take (length sub) (c # cs) = sub \<or> str_includes cs sub"

text \<open>
  \<^verbatim>\<open>s.split(sep)\<close> for a separator of one code unit: the segments between the
  occurrences of the separator, at least one segment (the last equation's second case
  cannot arise, the result of a split is never empty).
\<close>

fun split_at :: "jschar \<Rightarrow> jsstring \<Rightarrow> jsstring list" where
  "split_at sep [] = [[]]"
| "split_at sep (c # cs) =
     (if c = sep then [] # split_at sep cs
      else (case split_at sep cs of
              seg # segs \<Rightarrow> (c # seg) # segs
            | [] \<Rightarrow> [[c]]))"

subsection \<open>Editor state\<close>

text \<open>
  \<^verbatim>\<open>SelectionRange\<close>: the code reads \<^verbatim>\<open>from\<close>, \<^verbatim>\<open>to\<close> and \<^verbatim>\<open>empty\<close> only.
  \<^verbatim>\<open>EditorSelection.cursor(p)\<close> is the empty range at \<open>p\<close>,
  \<^verbatim>\<open>EditorSelection.range(anchor, head)\<close> has the smaller of the two as \<^verbatim>\<open>from\<close>.
\<close>

record SelectionRange =
  range_from :: int
  range_to :: int

definition range_empty :: "SelectionRange \<Rightarrow> bool" where
  "range_empty r \<longleftrightarrow> range_from r = range_to r"

definition EditorSelection_cursor :: "int \<Rightarrow> SelectionRange" where
  "EditorSelection_cursor p = \<lparr>range_from = p, range_to = p\<rparr>"

definition EditorSelection_range :: "int \<Rightarrow> int \<Rightarrow> SelectionRange" where
  "EditorSelection_range anchor head = \<lparr>range_from = min anchor head, range_to = max anchor head\<rparr>"

record ReplacementRule =
  rule_key :: jsstring
  rule_value :: jsstring

record MagicQuotes =
  primary :: jsstring
  secondary :: jsstring

record AutocorrectConfig =
  active :: bool
  replacements :: "ReplacementRule list"
  magicQuotes :: MagicQuotes

text \<open>
  The editor state as far as the handlers read it: the document (line breaks are the one
  code unit U+000A, as \<^verbatim>\<open>sliceDoc\<close> returns them), the selection ranges, the
  autocorrect configuration (\<^verbatim>\<open>state.field(configField).autocorrect\<close>) and the syntax
  tree, of which the code uses \<^verbatim>\<open>syntaxTree(state).resolve(pos, 0).type.name\<close> only.
\<close>

record EditorState =
  doc :: jsstring
  selection :: "SelectionRange list"
  autocorrect :: AutocorrectConfig
  nodeName :: "int \<Rightarrow> string"

text \<open>\<^verbatim>\<open>ChangeSpec\<close>: replace the code units in \<open>[from, to)\<close> by \<open>insert\<close>.\<close>

record ChangeSpec =
  change_from :: int
  change_to :: int
  change_insert :: jsstring

datatype error = TypeError | RangeError

text \<open>
  What a handler did: the value it returned and the argument of \<^verbatim>\<open>view.dispatch\<close>,
  \<open>None\<close> when it returned before dispatching.
\<close>

record 'tr Outcome =
  handled :: bool
  dispatched :: "'tr option"

subsection \<open>The editor's interface\<close>

text \<open>
  Modelled from the spec: the host editor's \<^verbatim>\<open>sliceDoc\<close>, \<^verbatim>\<open>doc.lineAt\<close> and the
  application of a change are not part of the sources; the spec lists them as "read-only
  snapshot of document text over any range", "current line text at a given position" and
  edits "replacing that span".  \<^verbatim>\<open>sliceDoc\<close> clips both ends to the document, so a
  slice that starts at \<open>-1\<close> and ends at \<open>0\<close> is the empty string;
  \<^verbatim>\<open>lineAt\<close> raises a RangeError outside the document.
\<close>

definition sliceDoc :: "jsstring \<Rightarrow> int \<Rightarrow> int \<Rightarrow> jsstring" where
  "sliceDoc d f t =
     (let f' = max 0 (min (int (length d)) f);
          t' = max f' (min (int (length d)) t)
      in take (nat (t' - f')) (drop (nat f') d))"

definition lineAt :: "jsstring \<Rightarrow> int \<Rightarrow> error + jsstring" where
  "lineAt d pos =
     (if pos < 0 \<or> int (length d) < pos then Inl RangeError
      else Inr (rev (takeWhile (\<lambda>c. c \<noteq> chr_newline) (rev (take (nat pos) d)))
                @ takeWhile (\<lambda>c. c \<noteq> chr_newline) (drop (nat pos) d)))"

definition applyChange :: "jsstring \<Rightarrow> ChangeSpec \<Rightarrow> jsstring" where
  "applyChange d c = take (nat (change_from c)) d @ change_insert c @ drop (nat (change_to c)) d"

subsection \<open>\<^verbatim>\<open>posInProtectedNode\<close>\<close>

definition protectedNodes :: "string list" where
  "protectedNodes = [''InlineCode'', ''CommentBlock'', ''FencedCode'', ''CodeText'', ''HorizontalRule'']"

definition posInProtectedNode :: "EditorState \<Rightarrow> int \<Rightarrow> bool" where
  "posInProtectedNode state pos \<longleftrightarrow> nodeName state pos \<in> set protectedNodes"

subsection \<open>\<^verbatim>\<open>handleReplacement\<close>\<close>

text \<open>
  \<^verbatim>\<open>replacements.sort((a, b) => b.key.length - a.key.length)\<close> on a copy of the table:
  the sort of an array is stable, so this is the stable sort by descending key length.
\<close>

definition sortReplacements :: "ReplacementRule list \<Rightarrow> ReplacementRule list" where
  "sortReplacements rs = sort_key (\<lambda>r. - int (length (rule_key r))) rs"

text \<open>
  The inner loop \<^verbatim>\<open>for (const { key, value } of replacements)\<close>: \<open>None\<close> when it ends
  without a push, either through the \<^verbatim>\<open>break\<close> at a protected start or by running out
  of rules.
\<close>

fun scanRules :: "EditorState \<Rightarrow> jsstring \<Rightarrow> int \<Rightarrow> ReplacementRule list \<Rightarrow> ChangeSpec option" where
  "scanRules state slc pos [] = None"
| "scanRules state slc pos (r # rs) =
     (if endsWith slc (rule_key r) then
        (let startOfReplacement = pos - int (length (rule_key r)) in
         if posInProtectedNode state startOfReplacement then None
         else Some \<lparr>change_from = startOfReplacement, change_to = pos,
                    change_insert = rule_value r\<rparr>)
      else scanRules state slc pos rs)"

text \<open>The body of \<^verbatim>\<open>for (const range of view.state.selection.ranges)\<close>.\<close>

definition scanRange ::
  "EditorState \<Rightarrow> ReplacementRule list \<Rightarrow> int \<Rightarrow> SelectionRange \<Rightarrow> error + ChangeSpec option" where
  "scanRange state reps maxKeyLength rng =
     (if \<not> range_empty rng then Inr None
      else if posInProtectedNode state (range_from rng) then Inr None
      else (case lineAt (doc state) (range_from rng) of
              Inl e \<Rightarrow> Inl e
            | Inr line \<Rightarrow>
                if line \<in> set [str_dashes, str_dots] then Inr None
                else (let start = max (range_from rng - maxKeyLength) 0;
                          slc = sliceDoc (doc state) start (range_from rng)
                      in Inr (scanRules state slc (range_from rng) reps))))"

fun scanRanges ::
  "EditorState \<Rightarrow> ReplacementRule list \<Rightarrow> int \<Rightarrow> ChangeSpec list \<Rightarrow> SelectionRange list
     \<Rightarrow> error + ChangeSpec list" where
  "scanRanges state reps maxKeyLength changes [] = Inr changes"
| "scanRanges state reps maxKeyLength changes (rng # ranges) =
     (case scanRange state reps maxKeyLength rng of
        Inl e \<Rightarrow> Inl e
      | Inr None \<Rightarrow> scanRanges state reps maxKeyLength changes ranges
      | Inr (Some c) \<Rightarrow> scanRanges state reps maxKeyLength (changes @ [c]) ranges)"

definition maxKeyLength_of :: "ReplacementRule list \<Rightarrow> int" where
  "maxKeyLength_of sorted_reps = (case sorted_reps of [] \<Rightarrow> 0 | r # _ \<Rightarrow> int (length (rule_key r)))"

definition handleReplacement :: "EditorState \<Rightarrow> error + ChangeSpec list Outcome" where
  "handleReplacement state =
     (let ac = autocorrect state in
      if \<not> active ac \<or> length (replacements ac) = 0 then Inr \<lparr>handled = False, dispatched = None\<rparr>
      else
        (let reps = sortReplacements (replacements ac);
             maxKeyLength = maxKeyLength_of reps
         in case scanRanges state reps maxKeyLength [] (selection state) of
              Inl e \<Rightarrow> Inl e
            | Inr changes \<Rightarrow> Inr \<lparr>handled = False, dispatched = Some changes\<rparr>))"

subsection \<open>\<^verbatim>\<open>handleBackspace\<close>\<close>

text \<open>
  The body of the loop over the ranges: the change it pushes, if any.  \<^verbatim>\<open>hasHandled\<close>
  is set exactly when a change is pushed.
\<close>

definition backspaceRange ::
  "EditorState \<Rightarrow> jsstring list \<Rightarrow> jsstring list \<Rightarrow> SelectionRange \<Rightarrow> ChangeSpec option" where
  "backspaceRange state primaryMagicQuotes secondaryMagicQuotes rng =
     (if range_from rng = 0 then None
      else
        (let slc = sliceDoc (doc state) (range_from rng - 1) (range_from rng) in
         if slc \<in> set primaryMagicQuotes \<and> slc \<noteq> str_dquote then
           Some \<lparr>change_from = range_from rng - 1, change_to = range_from rng,
                 change_insert = str_dquote\<rparr>
         else if slc \<in> set secondaryMagicQuotes \<and> slc \<noteq> str_squote then
           Some \<lparr>change_from = range_from rng - 1, change_to = range_from rng,
                 change_insert = str_squote\<rparr>
         else None))"

fun backspaceRanges ::
  "EditorState \<Rightarrow> jsstring list \<Rightarrow> jsstring list \<Rightarrow> ChangeSpec list \<Rightarrow> bool \<Rightarrow> SelectionRange list
     \<Rightarrow> ChangeSpec list \<times> bool" where
  "backspaceRanges state pq sq changes hasHandled [] = (changes, hasHandled)"
| "backspaceRanges state pq sq changes hasHandled (rng # ranges) =
     (case backspaceRange state pq sq rng of
        None \<Rightarrow> backspaceRanges state pq sq changes hasHandled ranges
      | Some c \<Rightarrow> backspaceRanges state pq sq (changes @ [c]) True ranges)"

definition handleBackspace :: "EditorState \<Rightarrow> ChangeSpec list Outcome" where
  "handleBackspace state =
     (let ac = autocorrect state in
      if \<not> active ac then \<lparr>handled = False, dispatched = None\<rparr>
      else
        (let primaryMagicQuotes = split_at chr_ellipsis (primary (magicQuotes ac));
             secondaryMagicQuotes = split_at chr_ellipsis (secondary (magicQuotes ac));
             (changes, hasHandled) =
                backspaceRanges state primaryMagicQuotes secondaryMagicQuotes [] False (selection state)
         in \<lparr>handled = hasHandled, dispatched = Some changes\<rparr>))"

subsection \<open>\<^verbatim>\<open>handleQuote\<close>\<close>

text \<open>
  \<^verbatim>\<open>quotes[i]\<close> is \<^verbatim>\<open>undefined\<close> beyond the end of the array; reading \<^verbatim>\<open>.length\<close>
  of it raises a TypeError.
\<close>

definition quote_at :: "jsstring list \<Rightarrow> nat \<Rightarrow> jsstring option" where
  "quote_at quotes i = (if i < length quotes then Some (quotes ! i) else None)"

record RangeResult =
  res_range :: SelectionRange
  res_changes :: ChangeSpec

text \<open>
  The callback given to \<^verbatim>\<open>changeByRange\<close>.  Its \<^verbatim>\<open>changes\<close> are in the coordinates of
  the document before the keystroke, its \<^verbatim>\<open>range\<close> in those of the document that this
  one change produces.
\<close>

definition quoteRange :: "EditorState \<Rightarrow> jsstring list \<Rightarrow> SelectionRange \<Rightarrow> error + RangeResult" where
  "quoteRange state quotes rng =
     (if range_empty rng then
        (let charBefore = sliceDoc (doc state) (range_from rng - 1) (range_from rng);
             ins = (if str_includes startChars charBefore then quote_at quotes 0 else quote_at quotes 1)
         in case ins of
              None \<Rightarrow> Inl TypeError
            | Some glyph \<Rightarrow>
                Inr \<lparr>res_range = EditorSelection_cursor (range_to rng + int (length glyph)),
                     res_changes = \<lparr>change_from = range_from rng, change_to = range_to rng,
                                    change_insert = glyph\<rparr>\<rparr>)
      else
        (let txt = sliceDoc (doc state) (range_from rng) (range_to rng) in
         case quote_at quotes 0 of
           None \<Rightarrow> Inl TypeError
         | Some q0 \<Rightarrow>
             (case quote_at quotes 1 of
                None \<Rightarrow> Inl TypeError
              | Some q1 \<Rightarrow>
                  Inr \<lparr>res_range = EditorSelection_range (range_from rng + int (length q0))
                                                         (range_to rng + int (length q1)),
                       res_changes = \<lparr>change_from = range_from rng, change_to = range_to rng,
                                      change_insert = q0 @ txt @ q1\<rparr>\<rparr>)))"

text \<open>\<^verbatim>\<open>changeByRange\<close> runs the callback on every range, in order.\<close>

fun changeByRange :: "(SelectionRange \<Rightarrow> error + RangeResult) \<Rightarrow> SelectionRange list \<Rightarrow> error + RangeResult list" where
  "changeByRange f [] = Inr []"
| "changeByRange f (rng # ranges) =
     (case f rng of
        Inl e \<Rightarrow> Inl e
      | Inr res \<Rightarrow> (case changeByRange f ranges of Inl e \<Rightarrow> Inl e | Inr ress \<Rightarrow> Inr (res # ress)))"

definition handleQuote :: "jsstring \<Rightarrow> EditorState \<Rightarrow> error + RangeResult list Outcome" where
  "handleQuote quote state =
     (let ac = autocorrect state in
      if \<not> active ac then Inr \<lparr>handled = False, dispatched = None\<rparr>
      else
        (let primaryQuotes = split_at chr_ellipsis (primary (magicQuotes ac));
             secondaryQuotes = split_at chr_ellipsis (secondary (magicQuotes ac));
             quotes = (if quote = str_dquote then primaryQuotes else secondaryQuotes)
         in case changeByRange (quoteRange state quotes) (selection state) of
              Inl e \<Rightarrow> Inl e
            | Inr transaction \<Rightarrow> Inr \<lparr>handled = True, dispatched = Some transaction\<rparr>))"

subsection \<open>Dispatching a transaction\<close>

text \<open>
  Modelled from the spec: the host applies the changes of a transaction, all given in the
  coordinates of the document before the keystroke, as one batch, and maps the selection
  through them.  This is the result for changes whose spans do not overlap: they are
  applied from the last to the first, and a position at or behind the end of a change moves
  by the growth of that change.  Nothing is said here about a batch with overlapping or
  repeated spans, which the host composes in its own way; the statements below that use
  \<open>applyChanges\<close> are about batches of \<^verbatim>\<open>handleBackspace\<close> for selections whose ranges
  start at different positions, where every change replaces one code unit by one code unit
  and no two changes share a span.
\<close>

definition applyChanges :: "jsstring \<Rightarrow> ChangeSpec list \<Rightarrow> jsstring" where
  "applyChanges d changes = foldr (\<lambda>c d'. applyChange d' c) changes d"

definition mapPos :: "ChangeSpec list \<Rightarrow> int \<Rightarrow> int" where
  "mapPos changes pos =
     pos + (\<Sum>c \<leftarrow> filter (\<lambda>c. change_to c \<le> pos) changes.
              int (length (change_insert c)) - (change_to c - change_from c))"

definition dispatchChanges :: "EditorState \<Rightarrow> ChangeSpec list \<Rightarrow> EditorState" where
  "dispatchChanges state changes =
     state\<lparr>doc := applyChanges (doc state) changes,
           selection := map (\<lambda>r. \<lparr>range_from = mapPos changes (range_from r),
                                   range_to = mapPos changes (range_to r)\<rparr>) (selection state)\<rparr>"

subsection \<open>Notions used in the statements\<close>

text \<open>
  The host keeps every selection range inside the document, with \<^verbatim>\<open>from\<close> not behind
  \<^verbatim>\<open>to\<close>.
\<close>

definition validRange :: "EditorState \<Rightarrow> SelectionRange \<Rightarrow> bool" where
  "validRange state r \<longleftrightarrow>
     0 \<le> range_from r \<and> range_from r \<le> range_to r \<and> range_to r \<le> int (length (doc state))"

definition validSelection :: "EditorState \<Rightarrow> bool" where
  "validSelection state \<longleftrightarrow> list_all (validRange state) (selection state)"

text \<open>The document text that ends at the start of a range.\<close>

definition textBefore :: "EditorState \<Rightarrow> SelectionRange \<Rightarrow> jsstring" where
  "textBefore state r = take (nat (range_from r)) (doc state)"

text \<open>A rule matches at a range when its key is a suffix of the text that ends there.\<close>

definition ruleMatches :: "EditorState \<Rightarrow> SelectionRange \<Rightarrow> ReplacementRule \<Rightarrow> bool" where
  "ruleMatches state r rule \<longleftrightarrow> endsWith (textBefore state r) (rule_key rule)"

text \<open>The edit that replaces the key of a rule in front of a range by the rule's value.\<close>

definition ruleEdit :: "SelectionRange \<Rightarrow> ReplacementRule \<Rightarrow> ChangeSpec" where
  "ruleEdit r rule =
     \<lparr>change_from = range_from r - int (length (rule_key rule)), change_to = range_from r,
      change_insert = rule_value rule\<rparr>"

text \<open>
  What one range contributes to the changes that \<^verbatim>\<open>handleReplacement\<close> dispatches: the
  loop body run with the sorted table and \<^verbatim>\<open>maxKeyLength\<close> of the handler.
\<close>

definition cursorChanges :: "EditorState \<Rightarrow> SelectionRange \<Rightarrow> ChangeSpec list" where
  "cursorChanges state r =
     (let reps = sortReplacements (replacements (autocorrect state)) in
      case scanRange state reps (maxKeyLength_of reps) r of
        Inr (Some c) \<Rightarrow> [c]
      | _ \<Rightarrow> [])"

text \<open>Two half-open spans \<open>[from, to)\<close> intersect when they share a position.\<close>

definition spans_intersect :: "ChangeSpec \<Rightarrow> ChangeSpec \<Rightarrow> bool" where
  "spans_intersect a b \<longleftrightarrow> max (change_from a) (change_from b) < min (change_to a) (change_to b)"

text \<open>The two arrays of glyphs that the quote handlers split from the configuration.\<close>

definition primaryGlyphs :: "EditorState \<Rightarrow> jsstring list" where
  "primaryGlyphs state = split_at chr_ellipsis (primary (magicQuotes (autocorrect state)))"

definition secondaryGlyphs :: "EditorState \<Rightarrow> jsstring list" where
  "secondaryGlyphs state = split_at chr_ellipsis (secondary (magicQuotes (autocorrect state)))"

text \<open>The one code unit in front of a range, as a string.\<close>

definition charBeforeRange :: "EditorState \<Rightarrow> SelectionRange \<Rightarrow> jsstring" where
  "charBeforeRange state r = [doc state ! nat (range_from r - 1)]"

text \<open>
  A range is handled by the backspace: it does not start at the start of the document,
  and the code unit in front of it is a glyph of the primary pair other than the plain
  double quote, or a glyph of the secondary pair other than the plain single quote.
\<close>

definition isPrimaryMagic :: "EditorState \<Rightarrow> jsstring \<Rightarrow> bool" where
  "isPrimaryMagic state c \<longleftrightarrow> c \<in> set (primaryGlyphs state) \<and> c \<noteq> str_dquote"

definition isSecondaryMagic :: "EditorState \<Rightarrow> jsstring \<Rightarrow> bool" where
  "isSecondaryMagic state c \<longleftrightarrow> c \<in> set (secondaryGlyphs state) \<and> c \<noteq> str_squote"

definition backspaceHandles :: "EditorState \<Rightarrow> SelectionRange \<Rightarrow> bool" where
  "backspaceHandles state r \<longleftrightarrow>
     range_from r \<noteq> 0 \<and>
     (isPrimaryMagic state (charBeforeRange state r) \<or> isSecondaryMagic state (charBeforeRange state r))"

text \<open>The plain quote that corresponds to the glyph in front of a handled range.\<close>

definition plainQuoteFor :: "EditorState \<Rightarrow> SelectionRange \<Rightarrow> jsstring" where
  "plainQuoteFor state r =
     (if isPrimaryMagic state (charBeforeRange state r) then str_dquote else str_squote)"

definition backspaceEdit :: "EditorState \<Rightarrow> SelectionRange \<Rightarrow> ChangeSpec" where
  "backspaceEdit state r =
     \<lparr>change_from = range_from r - 1, change_to = range_from r,
      change_insert = plainQuoteFor state r\<rparr>"

subsection \<open>Example states\<close>

text \<open>
  A configuration with the rules \<^verbatim>\<open>>\<close>, \<^verbatim>\<open>--\<close>, \<^verbatim>\<open>->\<close> and \<^verbatim>\<open>-->\<close> (in this order) and
  the curly quotes U+201C/U+201D and U+2018/U+2019.
\<close>

definition ex_rules :: "ReplacementRule list" where
  "ex_rules =
     [\<lparr>rule_key = [0x3E], rule_value = [0x203A]\<rparr>,
      \<lparr>rule_key = [0x2D, 0x2D], rule_value = [0x2013]\<rparr>,
      \<lparr>rule_key = [0x2D, 0x3E], rule_value = [0x2192]\<rparr>,
      \<lparr>rule_key = [0x2D, 0x2D, 0x3E], rule_value = [0x27F6]\<rparr>]"

definition ex_config :: AutocorrectConfig where
  "ex_config =
     \<lparr>active = True, replacements = ex_rules,
      magicQuotes = \<lparr>primary = [0x201C, 0x2026, 0x201D], secondary = [0x2018, 0x2026, 0x2019]\<rparr>\<rparr>"

text \<open>A syntax tree without protected nodes, and one whose positions below \<open>n\<close> are inline code.\<close>

definition plainTree :: "int \<Rightarrow> string" where
  "plainTree pos = ''Paragraph''"

definition codeUpTo :: "int \<Rightarrow> int \<Rightarrow> string" where
  "codeUpTo n pos = (if pos < n then ''InlineCode'' else ''Paragraph'')"

text \<open>The document \<^verbatim>\<open>a->\<close> with the cursor at its end.\<close>

definition ex_arrow :: EditorState where
  "ex_arrow =
     \<lparr>doc = [0x61, 0x2D, 0x3E], selection = [\<lparr>range_from = 3, range_to = 3\<rparr>],
      autocorrect = ex_config, nodeName = plainTree\<rparr>"

text \<open>The same, with inline code up to position 2: the cursor and position 2 are not protected, position 1 is.\<close>

definition ex_arrow_code :: EditorState where
  "ex_arrow_code =
     \<lparr>doc = [0x61, 0x2D, 0x3E], selection = [\<lparr>range_from = 3, range_to = 3\<rparr>],
      autocorrect = ex_config, nodeName = codeUpTo 2\<rparr>"

text \<open>The document \<^verbatim>\<open>-->\<close> with one cursor behind \<^verbatim>\<open>--\<close> and one at the end.\<close>

definition ex_two_cursors :: EditorState where
  "ex_two_cursors =
     \<lparr>doc = [0x2D, 0x2D, 0x3E],
      selection = [\<lparr>range_from = 2, range_to = 2\<rparr>, \<lparr>range_from = 3, range_to = 3\<rparr>],
      autocorrect = ex_config, nodeName = plainTree\<rparr>"

text \<open>The document \<^verbatim>\<open>->a->\<close> with a cursor behind each arrow.\<close>

definition ex_apart :: EditorState where
  "ex_apart =
     \<lparr>doc = [0x2D, 0x3E, 0x61, 0x2D, 0x3E],
      selection = [\<lparr>range_from = 2, range_to = 2\<rparr>, \<lparr>range_from = 5, range_to = 5\<rparr>],
      autocorrect = ex_config, nodeName = plainTree\<rparr>"

text \<open>The document \<^verbatim>\<open>a\<close>, U+201C, \<^verbatim>\<open>b\<close> with a cursor on each side of the curly quote.\<close>

definition ex_quotes :: EditorState where
  "ex_quotes =
     \<lparr>doc = [0x61, 0x201C, 0x62],
      selection = [\<lparr>range_from = 1, range_to = 1\<rparr>, \<lparr>range_from = 2, range_to = 2\<rparr>],
      autocorrect = ex_config, nodeName = plainTree\<rparr>"


text \<open>A configuration whose primary pair has a start glyph of two code units (two backticks) and the plain double quote as end glyph, as in TeX input.\<close>

definition ex_tex_quotes :: AutocorrectConfig where
  "ex_tex_quotes =
     \<lparr>active = True, replacements = [],
      magicQuotes = \<lparr>primary = [0x60, 0x60, 0x2026, 0x22], secondary = [0x60, 0x2026, 0x27]\<rparr>\<rparr>"

text \<open>The document \<^verbatim>\<open>ab\<close>, all of it selected, with that configuration.\<close>

definition ex_wrap :: EditorState where
  "ex_wrap =
     \<lparr>doc = [0x61, 0x62], selection = [\<lparr>range_from = 0, range_to = 2\<rparr>],
      autocorrect = ex_tex_quotes, nodeName = plainTree\<rparr>"

text \<open>A state whose autocorrect configuration is not active.\<close>

definition ex_inactive :: EditorState where
  "ex_inactive =
     \<lparr>doc = [0x61], selection = [\<lparr>range_from = 1, range_to = 1\<rparr>],
      autocorrect = ex_config\<lparr>active := False\<rparr>, nodeName = plainTree\<rparr>"

text \<open>The document \<^verbatim>\<open>a\<close>, U+201C, all of it inline code, with the cursor at its end.\<close>

definition ex_in_code :: EditorState where
  "ex_in_code =
     \<lparr>doc = [0x61, 0x201C], selection = [\<lparr>range_from = 2, range_to = 2\<rparr>],
      autocorrect = ex_config, nodeName = codeUpTo 5\<rparr>"


text \<open>The empty document.\<close>

definition ex_doc_start :: EditorState where
  "ex_doc_start =
     \<lparr>doc = [], selection = [\<lparr>range_from = 0, range_to = 0\<rparr>],
      autocorrect = ex_config, nodeName = plainTree\<rparr>"

text \<open>The document \<^verbatim>\<open>a\<close> with the cursor behind the letter.\<close>

definition ex_after_letter :: EditorState where
  "ex_after_letter =
     \<lparr>doc = [0x61], selection = [\<lparr>range_from = 1, range_to = 1\<rparr>],
      autocorrect = ex_config, nodeName = plainTree\<rparr>"


text \<open>
  A configuration whose primary glyphs have two code units each (two backticks and two
  apostrophes, as in TeX input), the empty document with it, and the document after the
  quote key has been pressed there.
\<close>

definition ex_long_glyphs :: AutocorrectConfig where
  "ex_long_glyphs =
     \<lparr>active = True, replacements = [],
      magicQuotes = \<lparr>primary = [0x60, 0x60, 0x2026, 0x27, 0x27],
                     secondary = [0x2018, 0x2026, 0x2019]\<rparr>\<rparr>"

definition ex_long_start :: EditorState where
  "ex_long_start =
     \<lparr>doc = [], selection = [\<lparr>range_from = 0, range_to = 0\<rparr>],
      autocorrect = ex_long_glyphs, nodeName = plainTree\<rparr>"

definition ex_long_typed :: EditorState where
  "ex_long_typed =
     \<lparr>doc = [0x60, 0x60], selection = [\<lparr>range_from = 2, range_to = 2\<rparr>],
      autocorrect = ex_long_glyphs, nodeName = plainTree\<rparr>"

lemmas ex_defs =
  ex_rules_def ex_config_def plainTree_def codeUpTo_def ex_arrow_def ex_arrow_code_def
  ex_two_cursors_def ex_apart_def

lemmas str_defs =
  str_dashes_def str_dots_def str_dquote_def str_squote_def chr_ellipsis_def chr_newline_def
  startChars_def

section \<open>Properties\<close>

subsection \<open>Strings and slices\<close>



lemma endsWith_suffix: "endsWith s k \<longleftrightarrow> suffix k s"
proof
  assume "endsWith s k"
  then have "drop (length s - length k) s = k" by (simp add: endsWith_def)
  then show "suffix k s" by (metis suffix_drop)
next
  assume "suffix k s"
  then obtain zs where "s = zs @ k" by (auto simp: suffix_def)
  then show "endsWith s k" by (simp add: endsWith_def)
qed

lemma sliceDoc_valid:
  "0 \<le> f \<Longrightarrow> f \<le> t \<Longrightarrow> t \<le> int (length d) \<Longrightarrow>
   sliceDoc d f t = take (nat t - nat f) (drop (nat f) d)"
  by (simp add: sliceDoc_def Let_def max_def min_def nat_diff_distrib)

lemma sliceDoc_before:
  assumes "0 \<le> c" "c \<le> int (length d)" "0 \<le> m"
  shows "sliceDoc d (max (c - m) 0) c = drop (nat c - nat m) (take (nat c) d)"
proof -
  have "sliceDoc d (max (c - m) 0) c = take (nat c - nat (max (c - m) 0)) (drop (nat (max (c - m) 0)) d)"
    using assms by (intro sliceDoc_valid) auto
  also have "nat (max (c - m) 0) = nat c - nat m" using assms by (auto simp: max_def nat_diff_distrib)
  also have "take (nat c - (nat c - nat m)) (drop (nat c - nat m) d) = drop (nat c - nat m) (take (nat c) d)"
    by (simp add: drop_take)
  finally show ?thesis .
qed

lemma suffix_drop_iff:
  "length k \<le> m \<Longrightarrow> suffix k (drop (length t - m) t) \<longleftrightarrow> suffix k t"
proof
  assume "suffix k (drop (length t - m) t)"
  then show "suffix k t" by (meson suffix_drop suffix_order.trans)
next
  assume a: "length k \<le> m" "suffix k t"
  then obtain zs where t: "t = zs @ k" by (auto simp: suffix_def)
  have "drop (length t - m) t = drop (length t - m) zs @ k"
    using a t by simp
  then show "suffix k (drop (length t - m) t)" by (simp add: suffix_def)
qed

subsection \<open>The replacement scan\<close>

lemma scanRules_find:
  "scanRules st slc pos reps =
     (case List.find (\<lambda>r. endsWith slc (rule_key r)) reps of
        None \<Rightarrow> None
      | Some r \<Rightarrow>
          if posInProtectedNode st (pos - int (length (rule_key r))) then None
          else Some \<lparr>change_from = pos - int (length (rule_key r)), change_to = pos,
                     change_insert = rule_value r\<rparr>)"
  by (induction reps) (simp_all add: Let_def)

lemma find_filter_conj: "List.find P (filter Q xs) = List.find (\<lambda>x. Q x \<and> P x) xs"
  by (induction xs) auto

lemma find_sorted_filter:
  fixes f :: "'a \<Rightarrow> int"
  assumes "sorted (map f xs)" "\<forall>x\<in>set xs. P x \<longrightarrow> k \<le> f x" "\<exists>x\<in>set xs. P x \<and> f x = k"
  shows "List.find P xs = List.find P (filter (\<lambda>y. f y = k) xs)"
  using assms
proof (induction xs)
  case Nil
  then show ?case by simp
next
  case (Cons x xs)
  show ?case
  proof (cases "P x")
    case True
    with Cons.prems have "k \<le> f x" by simp
    moreover from Cons.prems obtain y where "y \<in> set (x # xs)" "f y = k" by auto
    with Cons.prems(1) have "f x \<le> k" by auto
    ultimately show ?thesis using True by simp
  next
    case False
    with Cons.prems have "List.find P xs = List.find P (filter (\<lambda>y. f y = k) xs)"
      by (intro Cons.IH) auto
    with False show ?thesis by simp
  qed
qed

lemma find_longest_first:
  fixes f :: "'a \<Rightarrow> int"
  assumes i: "i < length xs" "P (xs ! i)"
    and longest: "\<forall>j<length xs. P (xs ! j) \<longrightarrow> f (xs ! i) \<le> f (xs ! j)"
    and first: "\<forall>j<i. P (xs ! j) \<longrightarrow> f (xs ! j) \<noteq> f (xs ! i)"
  shows "List.find P (sort_key f xs) = Some (xs ! i)"
proof -
  let ?k = "f (xs ! i)"
  have "List.find P (sort_key f xs) = List.find P (filter (\<lambda>y. f y = ?k) (sort_key f xs))"
  proof (rule find_sorted_filter)
    show "sorted (map f (sort_key f xs))" by simp
    show "\<forall>x\<in>set (sort_key f xs). P x \<longrightarrow> ?k \<le> f x"
      using longest by (auto simp: in_set_conv_nth)
    show "\<exists>x\<in>set (sort_key f xs). P x \<and> f x = ?k"
      using i by auto
  qed
  also have "\<dots> = List.find P (filter (\<lambda>y. f y = ?k) xs)"
    by (simp only: sort_key_stable)
  also have "\<dots> = List.find (\<lambda>x. f x = ?k \<and> P x) xs"
    by (rule find_filter_conj)
  also have "\<dots> = Some (xs ! i)"
    unfolding find_Some_iff using i first by (intro exI[of _ i]) auto
  finally show ?thesis .
qed


lemma maxKeyLength_ge:
  assumes "r \<in> set table"
  shows "int (length (rule_key r)) \<le> maxKeyLength_of (sortReplacements table)"
proof (cases "sortReplacements table")
  case Nil
  then have "set (sortReplacements table) = {}" by simp
  with assms show ?thesis by (simp add: sortReplacements_def)
next
  case (Cons x xs)
  have "sorted (map (\<lambda>r. - int (length (rule_key r))) (sortReplacements table))"
    by (simp add: sortReplacements_def)
  with Cons have "\<forall>y\<in>set xs. length (rule_key y) \<le> length (rule_key x)" by auto
  moreover have "r \<in> set (x # xs)" using assms Cons by (metis set_sort sortReplacements_def)
  ultimately show ?thesis using Cons by (auto simp: maxKeyLength_of_def)
qed

lemma maxKeyLength_nonneg: "0 \<le> maxKeyLength_of reps"
  by (simp add: maxKeyLength_of_def split: list.split)

lemma slice_endsWith:
  assumes "0 \<le> c" "c \<le> int (length d)" "0 \<le> m" "int (length k) \<le> m"
  shows "endsWith (sliceDoc d (max (c - m) 0) c) k \<longleftrightarrow> endsWith (take (nat c) d) k"
proof -
  have len: "length (take (nat c) d) = nat c" using assms by simp
  have "sliceDoc d (max (c - m) 0) c = drop (length (take (nat c) d) - nat m) (take (nat c) d)"
    using assms by (simp only: sliceDoc_before len)
  moreover have "length k \<le> nat m" using assms by simp
  ultimately show ?thesis
    by (simp only: endsWith_suffix suffix_drop_iff)
qed

lemma lineAt_valid: "0 \<le> c \<Longrightarrow> c \<le> int (length d) \<Longrightarrow> \<exists>l. lineAt d c = Inr l"
  by (simp add: lineAt_def)

lemma scanRange_returns:
  "0 \<le> range_from r \<Longrightarrow> range_from r \<le> int (length (doc st)) \<Longrightarrow> \<exists>x. scanRange st reps m r = Inr x"
  using lineAt_valid[of "range_from r" "doc st"]
  by (auto simp: scanRange_def Let_def)

lemma scanRanges_concat:
  assumes "\<forall>r\<in>set rs. \<exists>x. scanRange st reps m r = Inr x"
  shows "scanRanges st reps m acc rs =
           Inr (acc @ concat (map (\<lambda>r. case scanRange st reps m r of Inr (Some c) \<Rightarrow> [c] | _ \<Rightarrow> []) rs))"
  using assms
proof (induction rs arbitrary: acc)
  case Nil
  then show ?case by simp
next
  case (Cons r rs)
  from Cons.prems obtain x where x: "scanRange st reps m r = Inr x" by auto
  have rest: "\<forall>r\<in>set rs. \<exists>x. scanRange st reps m r = Inr x" using Cons.prems by simp
  show ?case
  proof (cases x)
    case None
    with x Cons.IH[OF rest, of acc] show ?thesis by simp
  next
    case (Some c)
    with x Cons.IH[OF rest, of "acc @ [c]"] show ?thesis by simp
  qed
qed

lemma handleReplacement_dispatch:
  assumes "active (autocorrect st)" "replacements (autocorrect st) \<noteq> []" "validSelection st"
  shows "handleReplacement st =
           Inr \<lparr>handled = False, dispatched = Some (concat (map (cursorChanges st) (selection st)))\<rparr>"
proof -
  let ?reps = "sortReplacements (replacements (autocorrect st))"
  have "\<forall>r\<in>set (selection st). \<exists>x. scanRange st ?reps (maxKeyLength_of ?reps) r = Inr x"
    using assms(3) by (auto simp: validSelection_def validRange_def list_all_iff intro!: scanRange_returns)
  then have "scanRanges st ?reps (maxKeyLength_of ?reps) [] (selection st) =
       Inr (concat (map (cursorChanges st) (selection st)))"
    by (simp add: scanRanges_concat cursorChanges_def[abs_def] Let_def)
  then show ?thesis using assms(1,2) by (simp add: handleReplacement_def Let_def)
qed

text \<open>The loop body on a cursor that is processed.\<close>

lemma scanRange_processed:
  assumes "range_empty r" "0 \<le> range_from r" "range_from r \<le> int (length (doc st))"
    and "\<not> posInProtectedNode st (range_from r)"
    and "lineAt (doc st) (range_from r) \<notin> {Inr str_dashes, Inr str_dots}"
  shows "scanRange st (sortReplacements table) (maxKeyLength_of (sortReplacements table)) r =
           Inr (case List.find (ruleMatches st r) (sortReplacements table) of
                  None \<Rightarrow> None
                | Some rule \<Rightarrow>
                    if posInProtectedNode st (range_from r - int (length (rule_key rule))) then None
                    else Some (ruleEdit r rule))"
proof -
  let ?reps = "sortReplacements table"
  let ?m = "maxKeyLength_of ?reps"
  let ?slc = "sliceDoc (doc st) (max (range_from r - ?m) 0) (range_from r)"
  obtain l where l: "lineAt (doc st) (range_from r) = Inr l"
    using lineAt_valid assms(2,3) by blast
  with assms(5) have nl: "l \<noteq> str_dashes" "l \<noteq> str_dots" by auto
  have "scanRange st ?reps ?m r = Inr (scanRules st ?slc (range_from r) ?reps)"
    using assms(1,4) l nl by (simp add: scanRange_def Let_def)
  moreover have "List.find (\<lambda>rule. endsWith ?slc (rule_key rule)) ?reps = List.find (ruleMatches st r) ?reps"
  proof (rule find_cong[OF refl])
    fix rule assume "rule \<in> set ?reps"
    then have "rule \<in> set table" by (simp add: sortReplacements_def)
    then have "int (length (rule_key rule)) \<le> ?m" by (rule maxKeyLength_ge)
    then show "endsWith ?slc (rule_key rule) = ruleMatches st r rule"
      unfolding ruleMatches_def textBefore_def
      using assms(2,3) maxKeyLength_nonneg by (intro slice_endsWith) auto
  qed
  ultimately show ?thesis
    by (simp add: scanRules_find ruleEdit_def split: option.split)
qed

lemma find_longest_rule:
  assumes "i < length table" "P (table ! i)"
    and "\<forall>j<length table. P (table ! j) \<longrightarrow> length (rule_key (table ! j)) \<le> length (rule_key (table ! i))"
    and "\<forall>j<i. P (table ! j) \<longrightarrow> length (rule_key (table ! j)) < length (rule_key (table ! i))"
  shows "List.find P (sortReplacements table) = Some (table ! i)"
  unfolding sortReplacements_def using assms by (intro find_longest_first) auto


lemma cursorChanges_processed:
  assumes "range_empty r" "validRange st r"
    and "\<not> posInProtectedNode st (range_from r)"
    and "lineAt (doc st) (range_from r) \<notin> {Inr str_dashes, Inr str_dots}"
    and "List.find (ruleMatches st r) (sortReplacements (replacements (autocorrect st))) = Some rule"
  shows "cursorChanges st r =
           (if posInProtectedNode st (range_from r - int (length (rule_key rule))) then []
            else [ruleEdit r rule])"
proof -
  have "0 \<le> range_from r" "range_from r \<le> int (length (doc st))"
    using assms(2) by (auto simp: validRange_def)
  from scanRange_processed[OF assms(1) this assms(3,4), of "replacements (autocorrect st)"] assms(5)
  show ?thesis by (simp add: cursorChanges_def Let_def)
qed

lemma cursorChanges_skipped:
  assumes "validRange st r"
    and "\<not> range_empty r \<or> posInProtectedNode st (range_from r)
         \<or> lineAt (doc st) (range_from r) \<in> {Inr str_dashes, Inr str_dots}"
  shows "cursorChanges st r = []"
proof -
  obtain l where "lineAt (doc st) (range_from r) = Inr l"
    using lineAt_valid[of "range_from r" "doc st"] assms(1) by (auto simp: validRange_def)
  with assms(2) show ?thesis
    by (auto simp: cursorChanges_def scanRange_def Let_def)
qed

text \<open>
  Claim C1, as amended.  Let a cursor be processed by the scan: it is an empty range, its
  position is not protected and its line is neither \<^verbatim>\<open>---\<close> nor \<^verbatim>\<open>...\<close>.  Among the
  rules whose key is a suffix of the document text that ends at the cursor, let \<open>rule\<close>
  be the one with the longest key, the earliest such rule of the table.  If the start of
  its span \<open>[cursor - key.length, cursor)\<close> is not protected, then the cursor contributes
  exactly one edit, which replaces that span by the value of \<open>rule\<close>, and the dispatched
  changes are those of the ranges before it, this edit, and those of the ranges behind it.
\<close>

theorem longest_match_applied:
  assumes "active (autocorrect st)" and "validSelection st"
    and "selection st = pre @ r # post"
    and "range_empty r"
    and "\<not> posInProtectedNode st (range_from r)"
    and "lineAt (doc st) (range_from r) \<notin> {Inr str_dashes, Inr str_dots}"
    and "i < length (replacements (autocorrect st))"
    and "rule = replacements (autocorrect st) ! i"
    and "ruleMatches st r rule"
    and "\<forall>j<length (replacements (autocorrect st)).
           ruleMatches st r (replacements (autocorrect st) ! j) \<longrightarrow>
           length (rule_key (replacements (autocorrect st) ! j)) \<le> length (rule_key rule)"
    and "\<forall>j<i. ruleMatches st r (replacements (autocorrect st) ! j) \<longrightarrow>
           length (rule_key (replacements (autocorrect st) ! j)) < length (rule_key rule)"
    and "\<not> posInProtectedNode st (range_from r - int (length (rule_key rule)))"
  shows "cursorChanges st r = [ruleEdit r rule] \<and>
         handleReplacement st =
           Inr \<lparr>handled = False,
                dispatched = Some (concat (map (cursorChanges st) pre) @ [ruleEdit r rule]
                                   @ concat (map (cursorChanges st) post))\<rparr>"
proof -
  let ?table = "replacements (autocorrect st)"
  have valid: "validRange st r"
    using assms(2,3) by (simp add: validSelection_def)
  have "List.find (ruleMatches st r) (sortReplacements ?table) = Some (?table ! i)"
    using assms(7-11) by (intro find_longest_rule) auto
  then have one: "cursorChanges st r = [ruleEdit r rule]"
    using cursorChanges_processed[OF assms(4) valid assms(5,6)] assms(8,12) by simp
  have "?table \<noteq> []" using assms(7) by auto
  from handleReplacement_dispatch[OF assms(1) this assms(2)] one assms(3)
  show ?thesis by simp
qed


theorem longest_match_applied_witness:
  "cursorChanges ex_arrow \<lparr>range_from = 3, range_to = 3\<rparr> =
     [\<lparr>change_from = 1, change_to = 3, change_insert = [0x2192]\<rparr>] \<and>
   handleReplacement ex_arrow =
     Inr \<lparr>handled = False,
          dispatched = Some [\<lparr>change_from = 1, change_to = 3, change_insert = [0x2192]\<rparr>]\<rparr>"
proof -
  let ?r = "\<lparr>range_from = 3, range_to = 3\<rparr>"
  let ?rule = "\<lparr>rule_key = [0x2D, 0x3E], rule_value = [0x2192]\<rparr> :: ReplacementRule"
  have h1: "active (autocorrect ex_arrow)" by (simp add: ex_arrow_def ex_config_def)
  have h2: "validSelection ex_arrow"
    by (simp add: ex_arrow_def validSelection_def validRange_def)
  have h3: "selection ex_arrow = [] @ ?r # []" by (simp add: ex_arrow_def)
  have h4: "range_empty ?r" by (simp add: range_empty_def)
  have h5: "\<not> posInProtectedNode ex_arrow (range_from ?r)"
    by (simp add: ex_arrow_def posInProtectedNode_def protectedNodes_def plainTree_def)
  have h6: "lineAt (doc ex_arrow) (range_from ?r) \<notin> {Inr str_dashes, Inr str_dots}"
    by (simp add: ex_arrow_def lineAt_def str_defs)
  have h7: "Suc (Suc 0) < length (replacements (autocorrect ex_arrow))"
    by (simp add: ex_defs)
  have h8: "?rule = replacements (autocorrect ex_arrow) ! Suc (Suc 0)"
    by (simp add: ex_defs)
  have h9: "ruleMatches ex_arrow ?r ?rule"
    by (simp add: ex_arrow_def ruleMatches_def textBefore_def endsWith_def)
  have h10: "\<forall>j<length (replacements (autocorrect ex_arrow)).
           ruleMatches ex_arrow ?r (replacements (autocorrect ex_arrow) ! j) \<longrightarrow>
           length (rule_key (replacements (autocorrect ex_arrow) ! j)) \<le> length (rule_key ?rule)"
    by (simp add: ex_defs All_less_Suc ruleMatches_def textBefore_def endsWith_def)
  have h11: "\<forall>j<Suc (Suc 0). ruleMatches ex_arrow ?r (replacements (autocorrect ex_arrow) ! j) \<longrightarrow>
           length (rule_key (replacements (autocorrect ex_arrow) ! j)) < length (rule_key ?rule)"
    by (simp add: ex_defs All_less_Suc ruleMatches_def textBefore_def endsWith_def)
  have h12: "\<not> posInProtectedNode ex_arrow (range_from ?r - int (length (rule_key ?rule)))"
    by (simp add: ex_arrow_def posInProtectedNode_def protectedNodes_def plainTree_def)
  from longest_match_applied[OF h1 h2 h3 h4 h5 h6 h7 h8 h9 h10 h11 h12]
  show ?thesis by (simp add: ruleEdit_def)
qed

text \<open>
  Claim C1 as stated fails where the start of the longest match is protected: in
  \<^verbatim>\<open>a->\<close> with inline code up to position 2, the cursor at 3 is processed, the keys
  \<^verbatim>\<open>->\<close> and \<^verbatim>\<open>>\<close> are suffixes of the text in front of it, and no edit is emitted.
\<close>

theorem longest_match_protected_start_counterexample:
  "range_empty \<lparr>range_from = 3, range_to = 3\<rparr> \<and>
   \<not> posInProtectedNode ex_arrow_code 3 \<and>
   lineAt (doc ex_arrow_code) 3 = Inr [0x61, 0x2D, 0x3E] \<and>
   ruleMatches ex_arrow_code \<lparr>range_from = 3, range_to = 3\<rparr> \<lparr>rule_key = [0x2D, 0x3E], rule_value = [0x2192]\<rparr> \<and>
   ruleMatches ex_arrow_code \<lparr>range_from = 3, range_to = 3\<rparr> \<lparr>rule_key = [0x3E], rule_value = [0x203A]\<rparr> \<and>
   handleReplacement ex_arrow_code = Inr \<lparr>handled = False, dispatched = Some []\<rparr>"
  by (simp add: ex_defs str_defs range_empty_def posInProtectedNode_def protectedNodes_def
      lineAt_def ruleMatches_def textBefore_def endsWith_def handleReplacement_def
      sortReplacements_def maxKeyLength_of_def scanRange_def sliceDoc_def)

text \<open>
  Claim C2.  If the start of the span of the longest matching rule (the earliest such rule
  of the table) is protected, the range contributes no edit: the scan does not go on to a
  shorter key.  Nothing is assumed about the cursor position, and the only position that
  the hypothesis mentions is the start of the span.
\<close>

theorem protected_start_abandons_cursor:
  assumes "active (autocorrect st)" and "validSelection st"
    and "selection st = pre @ r # post"
    and "i < length (replacements (autocorrect st))"
    and "rule = replacements (autocorrect st) ! i"
    and "ruleMatches st r rule"
    and "\<forall>j<length (replacements (autocorrect st)).
           ruleMatches st r (replacements (autocorrect st) ! j) \<longrightarrow>
           length (rule_key (replacements (autocorrect st) ! j)) \<le> length (rule_key rule)"
    and "\<forall>j<i. ruleMatches st r (replacements (autocorrect st) ! j) \<longrightarrow>
           length (rule_key (replacements (autocorrect st) ! j)) < length (rule_key rule)"
    and "posInProtectedNode st (range_from r - int (length (rule_key rule)))"
  shows "cursorChanges st r = [] \<and>
         handleReplacement st =
           Inr \<lparr>handled = False,
                dispatched = Some (concat (map (cursorChanges st) pre)
                                   @ concat (map (cursorChanges st) post))\<rparr>"
proof -
  let ?table = "replacements (autocorrect st)"
  have valid: "validRange st r"
    using assms(2,3) by (simp add: validSelection_def)
  have found: "List.find (ruleMatches st r) (sortReplacements ?table) = Some (?table ! i)"
    using assms(4-8) by (intro find_longest_rule) auto
  have none: "cursorChanges st r = []"
  proof (cases "range_empty r \<and> \<not> posInProtectedNode st (range_from r)
                \<and> lineAt (doc st) (range_from r) \<notin> {Inr str_dashes, Inr str_dots}")
    case True
    then show ?thesis
      using cursorChanges_processed[OF _ valid _ _ found] assms(5,9) by simp
  next
    case False
    then show ?thesis by (intro cursorChanges_skipped[OF valid]) blast
  qed
  have "?table \<noteq> []" using assms(4) by auto
  from handleReplacement_dispatch[OF assms(1) this assms(2)] none assms(3)
  show ?thesis by simp
qed

text \<open>
  In \<^verbatim>\<open>a->\<close> with inline code up to position 2 the cursor at 3 is not protected, the
  start of \<^verbatim>\<open>->\<close> is, and the shorter key \<^verbatim>\<open>>\<close> matches with an unprotected start at 2:
  still no edit is emitted.
\<close>

theorem protected_start_abandons_cursor_witness:
  "\<not> posInProtectedNode ex_arrow_code 3 \<and> posInProtectedNode ex_arrow_code 1 \<and>
   \<not> posInProtectedNode ex_arrow_code 2 \<and>
   ruleMatches ex_arrow_code \<lparr>range_from = 3, range_to = 3\<rparr>
     \<lparr>rule_key = [0x3E], rule_value = [0x203A]\<rparr> \<and>
   cursorChanges ex_arrow_code \<lparr>range_from = 3, range_to = 3\<rparr> = [] \<and>
   handleReplacement ex_arrow_code = Inr \<lparr>handled = False, dispatched = Some []\<rparr>"
proof -
  let ?r = "\<lparr>range_from = 3, range_to = 3\<rparr>"
  let ?rule = "\<lparr>rule_key = [0x2D, 0x3E], rule_value = [0x2192]\<rparr> :: ReplacementRule"
  have h1: "active (autocorrect ex_arrow_code)" by (simp add: ex_defs)
  have h2: "validSelection ex_arrow_code"
    by (simp add: ex_arrow_code_def validSelection_def validRange_def)
  have h3: "selection ex_arrow_code = [] @ ?r # []" by (simp add: ex_arrow_code_def)
  have h4: "Suc (Suc 0) < length (replacements (autocorrect ex_arrow_code))"
    by (simp add: ex_defs)
  have h5: "?rule = replacements (autocorrect ex_arrow_code) ! Suc (Suc 0)"
    by (simp add: ex_defs)
  have h6: "ruleMatches ex_arrow_code ?r ?rule"
    by (simp add: ex_arrow_code_def ruleMatches_def textBefore_def endsWith_def)
  have h7: "\<forall>j<length (replacements (autocorrect ex_arrow_code)).
           ruleMatches ex_arrow_code ?r (replacements (autocorrect ex_arrow_code) ! j) \<longrightarrow>
           length (rule_key (replacements (autocorrect ex_arrow_code) ! j)) \<le> length (rule_key ?rule)"
    by (simp add: ex_defs All_less_Suc ruleMatches_def textBefore_def endsWith_def)
  have h8: "\<forall>j<Suc (Suc 0).
           ruleMatches ex_arrow_code ?r (replacements (autocorrect ex_arrow_code) ! j) \<longrightarrow>
           length (rule_key (replacements (autocorrect ex_arrow_code) ! j)) < length (rule_key ?rule)"
    by (simp add: ex_defs All_less_Suc ruleMatches_def textBefore_def endsWith_def)
  have h9: "posInProtectedNode ex_arrow_code (range_from ?r - int (length (rule_key ?rule)))"
    by (simp add: ex_arrow_code_def posInProtectedNode_def protectedNodes_def codeUpTo_def)
  have prot: "\<not> posInProtectedNode ex_arrow_code 3 \<and> posInProtectedNode ex_arrow_code 1 \<and>
      \<not> posInProtectedNode ex_arrow_code 2"
    by (simp add: ex_arrow_code_def posInProtectedNode_def protectedNodes_def codeUpTo_def)
  have short: "ruleMatches ex_arrow_code ?r \<lparr>rule_key = [0x3E], rule_value = [0x203A]\<rparr>"
    by (simp add: ex_arrow_code_def ruleMatches_def textBefore_def endsWith_def)
  from protected_start_abandons_cursor[OF h1 h2 h3 h4 h5 h6 h7 h8 h9] prot short
  show ?thesis by simp
qed


lemma scanRules_Some:
  "scanRules st slc pos reps = Some c \<Longrightarrow>
   \<exists>rule\<in>set reps. c = \<lparr>change_from = pos - int (length (rule_key rule)), change_to = pos,
                           change_insert = rule_value rule\<rparr>"
  by (induction reps) (auto simp: Let_def split: if_splits)

lemma cursorChanges_cases:
  "cursorChanges st r = [] \<or>
   (\<exists>rule\<in>set (replacements (autocorrect st)). range_empty r \<and> cursorChanges st r = [ruleEdit r rule])"
proof (cases "scanRange st (sortReplacements (replacements (autocorrect st)))
                (maxKeyLength_of (sortReplacements (replacements (autocorrect st)))) r")
  case (Inl e)
  then show ?thesis by (simp add: cursorChanges_def Let_def)
next
  case (Inr x)
  show ?thesis
  proof (cases x)
    case None
    with Inr show ?thesis by (simp add: cursorChanges_def Let_def)
  next
    case (Some c)
    with Inr have e: "range_empty r" and
      "\<exists>slc. scanRules st slc (range_from r) (sortReplacements (replacements (autocorrect st))) = Some c"
      by (auto simp: scanRange_def Let_def split: if_splits sum.splits)
    then obtain rule where "rule \<in> set (sortReplacements (replacements (autocorrect st)))"
      "c = ruleEdit r rule"
      unfolding ruleEdit_def by (blast dest: scanRules_Some)
    then show ?thesis using Inr Some e
      by (auto simp: cursorChanges_def Let_def sortReplacements_def)
  qed
qed

lemma cursorChanges_length: "length (cursorChanges st r) \<le> 1"
  using cursorChanges_cases[of st r] by auto

lemma ruleEdits_apart:
  assumes "int (length (rule_key ra)) \<le> L" "int (length (rule_key rb)) \<le> L"
    and "L \<le> \<bar>range_from a - range_from b\<bar>"
  shows "\<not> spans_intersect (ruleEdit a ra) (ruleEdit b rb)"
  using assms by (simp add: spans_intersect_def ruleEdit_def)

lemma changes_disjoint:
  assumes "sorted_wrt (\<lambda>a b. range_empty a \<longrightarrow> range_empty b \<longrightarrow> L \<le> \<bar>range_from a - range_from b\<bar>) rs"
    and "\<forall>rule\<in>set (replacements (autocorrect st)). int (length (rule_key rule)) \<le> L"
  shows "sorted_wrt (\<lambda>a b. \<not> spans_intersect a b) (concat (map (cursorChanges st) rs))"
  using assms(1)
proof (induction rs)
  case Nil
  then show ?case by simp
next
  case (Cons r rs)
  have own: "sorted_wrt (\<lambda>a b. \<not> spans_intersect a b) (cursorChanges st r)"
    using cursorChanges_cases[of st r] by auto
  have cross: "\<not> spans_intersect x y"
    if "x \<in> set (cursorChanges st r)" "y \<in> set (concat (map (cursorChanges st) rs))" for x y
  proof -
    from that(2) obtain r' where r': "r' \<in> set rs" "y \<in> set (cursorChanges st r')" by auto
    from that(1) cursorChanges_cases[of st r] obtain ra where
      ra: "ra \<in> set (replacements (autocorrect st))" "range_empty r" "x = ruleEdit r ra" by auto
    from r'(2) cursorChanges_cases[of st r'] obtain rb where
      rb: "rb \<in> set (replacements (autocorrect st))" "range_empty r'" "y = ruleEdit r' rb" by auto
    from Cons.prems r'(1) ra(2) rb(2) have "L \<le> \<bar>range_from r - range_from r'\<bar>" by auto
    moreover have "int (length (rule_key ra)) \<le> L" "int (length (rule_key rb)) \<le> L"
      using ra(1) rb(1) assms(2) by auto
    ultimately show ?thesis unfolding ra(3) rb(3) by (intro ruleEdits_apart)
  qed
  from Cons have "sorted_wrt (\<lambda>a b. \<not> spans_intersect a b) (concat (map (cursorChanges st) rs))"
    by simp
  with own cross show ?case by (simp add: sorted_wrt_append)
qed

text \<open>
  Claim C5, as amended.  Every range contributes at most one edit to the dispatched
  changes, and an edit ends at its cursor and is as long as the matched key.  So the edits
  of one pass are pairwise non-intersecting whenever any two cursors of the selection are
  at least \<open>L\<close> apart, for a bound \<open>L\<close> on the key lengths of the table.
\<close>

theorem edits_disjoint_when_cursors_apart:
  assumes "active (autocorrect st)" and "replacements (autocorrect st) \<noteq> []"
    and "validSelection st"
    and "\<forall>rule\<in>set (replacements (autocorrect st)). int (length (rule_key rule)) \<le> L"
    and "\<forall>i j. i < j \<and> j < length (selection st) \<and>
               range_empty (selection st ! i) \<and> range_empty (selection st ! j) \<longrightarrow>
               L \<le> \<bar>range_from (selection st ! i) - range_from (selection st ! j)\<bar>"
  shows "\<exists>changes.
           handleReplacement st = Inr \<lparr>handled = False, dispatched = Some changes\<rparr> \<and>
           changes = concat (map (cursorChanges st) (selection st)) \<and>
           (\<forall>r. length (cursorChanges st r) \<le> 1) \<and>
           (\<forall>i j. i < j \<and> j < length changes \<longrightarrow> \<not> spans_intersect (changes ! i) (changes ! j))"
proof -
  let ?changes = "concat (map (cursorChanges st) (selection st))"
  have "sorted_wrt (\<lambda>a b. range_empty a \<longrightarrow> range_empty b \<longrightarrow> L \<le> \<bar>range_from a - range_from b\<bar>)
          (selection st)"
    using assms(5) by (simp add: sorted_wrt_iff_nth_less)
  then have "sorted_wrt (\<lambda>a b. \<not> spans_intersect a b) ?changes"
    using assms(4) by (rule changes_disjoint)
  then have "\<forall>i j. i < j \<and> j < length ?changes \<longrightarrow> \<not> spans_intersect (?changes ! i) (?changes ! j)"
    by (simp add: sorted_wrt_iff_nth_less)
  with handleReplacement_dispatch[OF assms(1-3)] cursorChanges_length show ?thesis by blast
qed

theorem edits_disjoint_when_cursors_apart_witness:
  "handleReplacement ex_apart =
     Inr \<lparr>handled = False,
          dispatched = Some [\<lparr>change_from = 0, change_to = 2, change_insert = [0x2192]\<rparr>,
                             \<lparr>change_from = 3, change_to = 5, change_insert = [0x2192]\<rparr>]\<rparr> \<and>
   \<not> spans_intersect \<lparr>change_from = 0, change_to = 2, change_insert = [0x2192]\<rparr>
                     \<lparr>change_from = 3, change_to = 5, change_insert = [0x2192]\<rparr>"
proof -
  let ?e1 = "\<lparr>change_from = 0, change_to = 2, change_insert = [0x2192]\<rparr>"
  let ?e2 = "\<lparr>change_from = 3, change_to = 5, change_insert = [0x2192]\<rparr>"
  have h1: "active (autocorrect ex_apart)" by (simp add: ex_defs)
  have h2: "replacements (autocorrect ex_apart) \<noteq> []" by (simp add: ex_defs)
  have h3: "validSelection ex_apart"
    by (simp add: ex_apart_def validSelection_def validRange_def)
  have h4: "\<forall>rule\<in>set (replacements (autocorrect ex_apart)). int (length (rule_key rule)) \<le> 3"
    by (simp add: ex_defs)
  have h5: "\<forall>i j. i < j \<and> j < length (selection ex_apart) \<and>
               range_empty (selection ex_apart ! i) \<and> range_empty (selection ex_apart ! j) \<longrightarrow>
               3 \<le> \<bar>range_from (selection ex_apart ! i) - range_from (selection ex_apart ! j)\<bar>"
  proof (intro allI impI)
    fix i j :: nat
    assume a: "i < j \<and> j < length (selection ex_apart) \<and>
               range_empty (selection ex_apart ! i) \<and> range_empty (selection ex_apart ! j)"
    then have "j < 2" by (simp add: ex_apart_def)
    with a have "i = 0" "j = 1" by auto
    then show "3 \<le> \<bar>range_from (selection ex_apart ! i) - range_from (selection ex_apart ! j)\<bar>"
      by (simp add: ex_apart_def)
  qed
  from edits_disjoint_when_cursors_apart[OF h1 h2 h3 h4 h5]
  obtain changes where c: "handleReplacement ex_apart = Inr \<lparr>handled = False, dispatched = Some changes\<rparr>"
    "changes = concat (map (cursorChanges ex_apart) (selection ex_apart))"
    "\<forall>i j. i < j \<and> j < length changes \<longrightarrow> \<not> spans_intersect (changes ! i) (changes ! j)"
    by blast
  have "concat (map (cursorChanges ex_apart) (selection ex_apart)) = [?e1, ?e2]"
    by (simp add: ex_defs str_defs cursorChanges_def range_empty_def
        posInProtectedNode_def protectedNodes_def lineAt_def endsWith_def
        sortReplacements_def maxKeyLength_of_def scanRange_def sliceDoc_def)
  with c(2) have eq: "changes = [?e1, ?e2]" by simp
  then have "0 < (1::nat) \<and> 1 < length changes" by simp
  with c(3) have "\<not> spans_intersect (changes ! 0) (changes ! 1)" by blast
  with c(1) eq show ?thesis by simp
qed

text \<open>
  Claim C5 as stated fails: in \<^verbatim>\<open>-->\<close> with a cursor behind \<^verbatim>\<open>--\<close> and one at the end,
  the first cursor replaces \<open>[0, 2)\<close> and the second \<open>[0, 3)\<close>.
\<close>

theorem edits_overlap_counterexample:
  "validSelection ex_two_cursors \<and>
   handleReplacement ex_two_cursors =
     Inr \<lparr>handled = False,
          dispatched = Some [\<lparr>change_from = 0, change_to = 2, change_insert = [0x2013]\<rparr>,
                             \<lparr>change_from = 0, change_to = 3, change_insert = [0x27F6]\<rparr>]\<rparr> \<and>
   spans_intersect \<lparr>change_from = 0, change_to = 2, change_insert = [0x2013]\<rparr>
                   \<lparr>change_from = 0, change_to = 3, change_insert = [0x27F6]\<rparr>"
  by (simp add: ex_defs str_defs validSelection_def validRange_def range_empty_def
      posInProtectedNode_def protectedNodes_def lineAt_def endsWith_def handleReplacement_def
      sortReplacements_def maxKeyLength_of_def scanRange_def sliceDoc_def spans_intersect_def)

subsection \<open>The backspace\<close>

lemma sliceDoc_single:
  assumes "1 \<le> c" "c \<le> int (length d)"
  shows "sliceDoc d (c - 1) c = [d ! nat (c - 1)]"
proof -
  have "sliceDoc d (c - 1) c = take (nat c - nat (c - 1)) (drop (nat (c - 1)) d)"
    using assms by (intro sliceDoc_valid) auto
  moreover have "nat c - nat (c - 1) = 1" using assms by auto
  moreover have "nat (c - 1) < length d" using assms by auto
  ultimately show ?thesis by (simp add: take_Suc_conv_app_nth hd_drop_conv_nth take_Suc)
qed

lemma backspaceRanges_eq:
  "backspaceRanges st pq sq changes h rs =
     (changes @ List.map_filter (backspaceRange st pq sq) rs,
      h \<or> (\<exists>r\<in>set rs. backspaceRange st pq sq r \<noteq> None))"
  by (induction rs arbitrary: changes h) (auto split: option.splits)

lemma backspaceRange_valid:
  assumes "validRange st r"
  shows "backspaceRange st (primaryGlyphs st) (secondaryGlyphs st) r =
           (if backspaceHandles st r then Some (backspaceEdit st r) else None)"
proof (cases "range_from r = 0")
  case True
  then show ?thesis by (simp add: backspaceRange_def backspaceHandles_def)
next
  case False
  with assms have "1 \<le> range_from r" "range_from r \<le> int (length (doc st))"
    by (auto simp: validRange_def)
  then have "sliceDoc (doc st) (range_from r - 1) (range_from r) = charBeforeRange st r"
    unfolding charBeforeRange_def by (rule sliceDoc_single)
  with False show ?thesis
    by (simp add: backspaceRange_def backspaceHandles_def backspaceEdit_def plainQuoteFor_def
        isPrimaryMagic_def isSecondaryMagic_def Let_def)
qed

lemma map_filter_cong_set:
  "\<forall>x\<in>set xs. f x = g x \<Longrightarrow> List.map_filter f xs = List.map_filter g xs"
  by (induction xs) (auto split: option.splits)

lemma map_filter_if:
  "List.map_filter (\<lambda>r. if P r then Some (f r) else None) rs = map f (filter P rs)"
  by (induction rs) simp_all

lemma handleBackspace_outcome:
  assumes "active (autocorrect st)" "validSelection st"
  shows "handleBackspace st =
           \<lparr>handled = (\<exists>r\<in>set (selection st). backspaceHandles st r),
            dispatched = Some (map (backspaceEdit st) (filter (backspaceHandles st) (selection st)))\<rparr>"
proof -
  have each: "\<forall>r\<in>set (selection st).
      backspaceRange st (primaryGlyphs st) (secondaryGlyphs st) r =
        (if backspaceHandles st r then Some (backspaceEdit st r) else None)"
    using assms(2) by (auto simp: validSelection_def list_all_iff backspaceRange_valid)
  then have "List.map_filter (backspaceRange st (primaryGlyphs st) (secondaryGlyphs st)) (selection st) =
      List.map_filter (\<lambda>r. if backspaceHandles st r then Some (backspaceEdit st r) else None) (selection st)"
    by (rule map_filter_cong_set)
  moreover have "(\<exists>r\<in>set (selection st). backspaceRange st (primaryGlyphs st) (secondaryGlyphs st) r \<noteq> None)
      \<longleftrightarrow> (\<exists>r\<in>set (selection st). backspaceHandles st r)"
    using each by auto
  ultimately show ?thesis
    using assms(1)
    by (simp add: handleBackspace_def Let_def backspaceRanges_eq map_filter_if
        primaryGlyphs_def[symmetric] secondaryGlyphs_def[symmetric])
qed

lemma plainQuoteFor_cases: "plainQuoteFor st r = str_dquote \<or> plainQuoteFor st r = str_squote"
  by (simp add: plainQuoteFor_def)

lemma glyphs_of_pair:
  "primaryGlyphs st = [ps, pe] \<Longrightarrow> isPrimaryMagic st c \<longleftrightarrow> (c = ps \<or> c = pe) \<and> c \<noteq> str_dquote"
  "secondaryGlyphs st = [ss, se] \<Longrightarrow> isSecondaryMagic st c \<longleftrightarrow> (c = ss \<or> c = se) \<and> c \<noteq> str_squote"
  by (auto simp: isPrimaryMagic_def isSecondaryMagic_def)

text \<open>
  Claim C8.  With autocorrect active, the backspace handler returns true if and only if
  some range is handled, where a range is handled exactly when it does not start at the
  start of the document and the code unit in front of it is a glyph of the primary pair
  other than the plain double quote or a glyph of the secondary pair other than the plain
  single quote (for a setting of two segments the glyphs are the start and the end glyph,
  see \<open>glyphs_of_pair\<close>).  The dispatched changes are one edit for each handled range,
  in order, and none for the others; the edit replaces the one code unit in front of the
  range by the plain double quote for a primary glyph and by the plain single quote
  otherwise.
\<close>

theorem backspace_handled_iff:
  assumes "active (autocorrect st)" and "validSelection st"
  shows "handleBackspace st =
           \<lparr>handled = (\<exists>r\<in>set (selection st). backspaceHandles st r),
            dispatched = Some (map (backspaceEdit st) (filter (backspaceHandles st) (selection st)))\<rparr> \<and>
         (\<forall>r. change_from (backspaceEdit st r) = range_from r - 1 \<and>
              change_to (backspaceEdit st r) = range_from r \<and>
              change_insert (backspaceEdit st r) =
                (if isPrimaryMagic st (charBeforeRange st r) then str_dquote else str_squote))"
  using handleBackspace_outcome[OF assms] by (simp add: backspaceEdit_def plainQuoteFor_def)

theorem backspace_handled_iff_witness:
  "backspaceHandles ex_quotes \<lparr>range_from = 2, range_to = 2\<rparr> \<and>
   \<not> backspaceHandles ex_quotes \<lparr>range_from = 1, range_to = 1\<rparr> \<and>
   handleBackspace ex_quotes =
     \<lparr>handled = True,
      dispatched = Some [\<lparr>change_from = 1, change_to = 2, change_insert = str_dquote\<rparr>]\<rparr>"
proof -
  have h1: "active (autocorrect ex_quotes)" by (simp add: ex_quotes_def ex_config_def)
  have h2: "validSelection ex_quotes"
    by (simp add: ex_quotes_def validSelection_def validRange_def)
  have a: "backspaceHandles ex_quotes \<lparr>range_from = 2, range_to = 2\<rparr>"
    by (simp add: ex_quotes_def ex_config_def backspaceHandles_def isPrimaryMagic_def
        isSecondaryMagic_def primaryGlyphs_def secondaryGlyphs_def charBeforeRange_def str_defs)
  have b: "\<not> backspaceHandles ex_quotes \<lparr>range_from = 1, range_to = 1\<rparr>"
    by (simp add: ex_quotes_def ex_config_def backspaceHandles_def isPrimaryMagic_def
        isSecondaryMagic_def primaryGlyphs_def secondaryGlyphs_def charBeforeRange_def str_defs)
  have c: "backspaceEdit ex_quotes \<lparr>range_from = 2, range_to = 2\<rparr> =
      \<lparr>change_from = 1, change_to = 2, change_insert = str_dquote\<rparr>"
    by (simp add: ex_quotes_def ex_config_def backspaceEdit_def plainQuoteFor_def isPrimaryMagic_def
        primaryGlyphs_def charBeforeRange_def str_defs)
  have sel: "selection ex_quotes = [\<lparr>range_from = 1, range_to = 1\<rparr>, \<lparr>range_from = 2, range_to = 2\<rparr>]"
    by (simp add: ex_quotes_def)
  from backspace_handled_iff[OF h1 h2] a b c show ?thesis by (simp add: sel)
qed


lemma plainQuoteFor_single: "plainQuoteFor st r = [hd (plainQuoteFor st r)]"
  using plainQuoteFor_cases[of st r] by (auto simp: str_defs)

lemma applyChange_update:
  assumes "1 \<le> range_from r" "range_from r \<le> int (length d)"
  shows "applyChange d (backspaceEdit st r) = d[nat (range_from r - 1) := hd (plainQuoteFor st r)]"
proof -
  let ?k = "nat (range_from r - 1)"
  have k: "?k < length d" "nat (range_from r) = Suc ?k" using assms by auto
  have "applyChange d (backspaceEdit st r) = take ?k d @ plainQuoteFor st r @ drop (Suc ?k) d"
    using k by (simp add: applyChange_def backspaceEdit_def)
  also have "\<dots> = take ?k d @ hd (plainQuoteFor st r) # drop (Suc ?k) d"
    by (subst plainQuoteFor_single) simp
  also have "\<dots> = d[?k := hd (plainQuoteFor st r)]"
    using k(1) by (simp add: upd_conv_take_nth_drop)
  finally show ?thesis .
qed

lemma applyChanges_backspace:
  assumes "\<forall>r\<in>set hs. 1 \<le> range_from r \<and> range_from r \<le> int (length d)"
  shows "length (applyChanges d (map (backspaceEdit st) hs)) = length d"
    and "\<forall>r\<in>set hs. nat (range_from r - 1) \<noteq> k \<Longrightarrow>
           applyChanges d (map (backspaceEdit st) hs) ! k = d ! k"
    and "k < length d \<Longrightarrow> \<exists>r\<in>set hs. nat (range_from r - 1) = k \<Longrightarrow>
           \<exists>r\<in>set hs. nat (range_from r - 1) = k \<and>
             [applyChanges d (map (backspaceEdit st) hs) ! k] = plainQuoteFor st r"
  using assms
proof (induction hs)
  case Nil
  {
    case 1 show ?case by (simp add: applyChanges_def)
  next
    case 2 show ?case by (simp add: applyChanges_def)
  next
    case 3 then show ?case by simp
  }
next
  case (Cons h hs)
  let ?d' = "applyChanges d (map (backspaceEdit st) hs)"
  {
    case 1
    then have rest: "\<forall>r\<in>set hs. 1 \<le> range_from r \<and> range_from r \<le> int (length d)" by simp
    have step: "applyChanges d (map (backspaceEdit st) (h # hs)) = applyChange ?d' (backspaceEdit st h)"
      by (simp add: applyChanges_def)
    have len: "length ?d' = length d" using Cons.IH(1)[OF rest] .
    have "applyChange ?d' (backspaceEdit st h) = ?d'[nat (range_from h - 1) := hd (plainQuoteFor st h)]"
      using 1 len by (intro applyChange_update) auto
    with step len show ?case by simp
  next
    case 2
    then have rest: "\<forall>r\<in>set hs. 1 \<le> range_from r \<and> range_from r \<le> int (length d)" by simp
    have step: "applyChanges d (map (backspaceEdit st) (h # hs)) = applyChange ?d' (backspaceEdit st h)"
      by (simp add: applyChanges_def)
    have len: "length ?d' = length d" using Cons.IH(1)[OF rest] .
    have upd: "applyChange ?d' (backspaceEdit st h) = ?d'[nat (range_from h - 1) := hd (plainQuoteFor st h)]"
      using 2 len by (intro applyChange_update) auto
    have "?d' ! k = d ! k" using 2 rest by (intro Cons.IH(2)) auto
    with step upd 2 show ?case by simp
  next
    case 3
    then have rest: "\<forall>r\<in>set hs. 1 \<le> range_from r \<and> range_from r \<le> int (length d)" by simp
    have step: "applyChanges d (map (backspaceEdit st) (h # hs)) = applyChange ?d' (backspaceEdit st h)"
      by (simp add: applyChanges_def)
    have len: "length ?d' = length d" using Cons.IH(1)[OF rest] .
    have upd: "applyChange ?d' (backspaceEdit st h) = ?d'[nat (range_from h - 1) := hd (plainQuoteFor st h)]"
      using 3 len by (intro applyChange_update) auto
    show ?case
    proof (cases "nat (range_from h - 1) = k")
      case True
      with step upd len 3(1) have "[applyChanges d (map (backspaceEdit st) (h # hs)) ! k] = [hd (plainQuoteFor st h)]"
        by simp
      also have "\<dots> = plainQuoteFor st h" by (rule plainQuoteFor_single[symmetric])
      finally show ?thesis using True by auto
    next
      case False
      with 3(2) have "\<exists>r\<in>set hs. nat (range_from r - 1) = k" by auto
      from Cons.IH(3)[OF 3(1) this rest] obtain r where
        "r \<in> set hs" "nat (range_from r - 1) = k" "[?d' ! k] = plainQuoteFor st r" by blast
      moreover have "applyChanges d (map (backspaceEdit st) (h # hs)) ! k = ?d' ! k"
        using step upd False by simp
      ultimately show ?thesis by auto
    qed
  }
qed

lemma mapPos_same_length:
  assumes "\<forall>c\<in>set changes. int (length (change_insert c)) = change_to c - change_from c"
  shows "mapPos changes pos = pos"
proof -
  have "(\<Sum>c \<leftarrow> filter (\<lambda>c. change_to c \<le> pos) changes.
              int (length (change_insert c)) - (change_to c - change_from c)) = 0"
    using assms by (induction changes) auto
  then show ?thesis by (simp add: mapPos_def)
qed

lemma backspaceHandles_from:
  "range_from a = range_from b \<Longrightarrow> backspaceHandles st a = backspaceHandles st b"
  "range_from a = range_from b \<Longrightarrow> plainQuoteFor st a = plainQuoteFor st b"
  by (simp_all add: backspaceHandles_def plainQuoteFor_def charBeforeRange_def)

lemma plainQuote_not_magic:
  assumes "str_dquote \<notin> set (secondaryGlyphs st)" "str_squote \<notin> set (primaryGlyphs st)"
  shows "\<not> isPrimaryMagic st (plainQuoteFor st' r) \<and> \<not> isSecondaryMagic st (plainQuoteFor st' r)"
  using assms plainQuoteFor_cases[of st' r]
  by (auto simp: isPrimaryMagic_def isSecondaryMagic_def)

lemma plainQuoteFor_length: "length (plainQuoteFor st r) = 1"
  using plainQuoteFor_cases[of st r] by (auto simp: str_defs)

lemma dispatch_backspace:
  assumes "validSelection st"
  defines "hs \<equiv> filter (backspaceHandles st) (selection st)"
  defines "st' \<equiv> dispatchChanges st (map (backspaceEdit st) hs)"
  shows "selection st' = selection st" and "autocorrect st' = autocorrect st"
    and "length (doc st') = length (doc st)"
    and "r \<in> set (selection st) \<Longrightarrow> backspaceHandles st r \<Longrightarrow>
           charBeforeRange st' r = plainQuoteFor st r"
    and "r \<in> set (selection st) \<Longrightarrow> \<not> backspaceHandles st r \<Longrightarrow> range_from r \<noteq> 0 \<Longrightarrow>
           charBeforeRange st' r = charBeforeRange st r"
proof -
  have hsv: "\<forall>r\<in>set hs. 1 \<le> range_from r \<and> range_from r \<le> int (length (doc st))"
    using assms(1) unfolding hs_def
    by (fastforce simp: validSelection_def validRange_def list_all_iff backspaceHandles_def)
  have same: "\<forall>c\<in>set (map (backspaceEdit st) hs). int (length (change_insert c)) = change_to c - change_from c"
    by (simp add: backspaceEdit_def plainQuoteFor_length)
  have "map (\<lambda>r. \<lparr>range_from = mapPos (map (backspaceEdit st) hs) (range_from r),
                   range_to = mapPos (map (backspaceEdit st) hs) (range_to r)\<rparr>) (selection st)
        = selection st"
    by (simp add: mapPos_same_length[OF same] map_idI)
  then show "selection st' = selection st" by (simp add: st'_def dispatchChanges_def)
  show "autocorrect st' = autocorrect st" by (simp add: st'_def dispatchChanges_def)
  have doc': "doc st' = applyChanges (doc st) (map (backspaceEdit st) hs)"
    by (simp add: st'_def dispatchChanges_def)
  show "length (doc st') = length (doc st)"
    unfolding doc' using hsv by (rule applyChanges_backspace(1))
  {
    assume r: "r \<in> set (selection st)" "backspaceHandles st r"
    then have rh: "r \<in> set hs" by (simp add: hs_def)
    with hsv have "nat (range_from r - 1) < length (doc st)" by auto
    moreover have "\<exists>x\<in>set hs. nat (range_from x - 1) = nat (range_from r - 1)" using rh by auto
    ultimately obtain x where x: "x \<in> set hs" "nat (range_from x - 1) = nat (range_from r - 1)"
      "[doc st' ! nat (range_from r - 1)] = plainQuoteFor st x"
      unfolding doc' using applyChanges_backspace(3)[OF hsv] by blast
    from x(1) hsv have "1 \<le> range_from x" by blast
    moreover from rh hsv have "1 \<le> range_from r" by blast
    ultimately have "range_from x = range_from r" using x(2) by arith
    then have "plainQuoteFor st x = plainQuoteFor st r" by (rule backspaceHandles_from(2))
    with x(3) show "charBeforeRange st' r = plainQuoteFor st r" by (simp add: charBeforeRange_def)
  }
  {
    assume r: "r \<in> set (selection st)" "\<not> backspaceHandles st r" "range_from r \<noteq> 0"
    from r(1) assms(1) have "1 \<le> range_from r \<or> range_from r = 0"
      by (auto simp: validSelection_def validRange_def list_all_iff)
    with r(3) have r1: "1 \<le> range_from r" by simp
    have "\<forall>x\<in>set hs. nat (range_from x - 1) \<noteq> nat (range_from r - 1)"
    proof
      fix x assume x: "x \<in> set hs"
      show "nat (range_from x - 1) \<noteq> nat (range_from r - 1)"
      proof
        assume "nat (range_from x - 1) = nat (range_from r - 1)"
        moreover from x hsv have "1 \<le> range_from x" by blast
        ultimately have "range_from x = range_from r" using r1 by arith
        then have "backspaceHandles st x = backspaceHandles st r" by (rule backspaceHandles_from(1))
        with x r(2) show False by (simp add: hs_def)
      qed
    qed
    then have "doc st' ! nat (range_from r - 1) = doc st ! nat (range_from r - 1)"
      unfolding doc' by (rule applyChanges_backspace(2)[OF hsv])
    then show "charBeforeRange st' r = charBeforeRange st r" by (simp add: charBeforeRange_def)
  }
qed





text \<open>
  Glyphs of one code unit are downgraded once.  Let a range of the selection stand behind a
  glyph that the backspace handles, let the plain quotes not be directional glyphs of the
  other pair, and let the ranges start at different positions.  The first backspace reports
  handled and replaces the glyph by its plain quote; on the state that results from
  dispatching its changes, a second backspace reports not handled and dispatches no change,
  so the document stays as it is.
\<close>

theorem backspace_downgrade_once:
  assumes "active (autocorrect st)" and "validSelection st"
    and "r \<in> set (selection st)" and "backspaceHandles st r"
    and "str_dquote \<notin> set (secondaryGlyphs st)" and "str_squote \<notin> set (primaryGlyphs st)"
    and "distinct (map range_from (selection st))"
  shows "\<exists>changes.
           handleBackspace st = \<lparr>handled = True, dispatched = Some changes\<rparr> \<and>
           backspaceEdit st r \<in> set changes \<and>
           charBeforeRange (dispatchChanges st changes) r = plainQuoteFor st r \<and>
           handleBackspace (dispatchChanges st changes) = \<lparr>handled = False, dispatched = Some []\<rparr> \<and>
           doc (dispatchChanges (dispatchChanges st changes) []) = doc (dispatchChanges st changes)"
proof -
  let ?hs = "filter (backspaceHandles st) (selection st)"
  let ?changes = "map (backspaceEdit st) ?hs"
  let ?st' = "dispatchChanges st ?changes"
  note d = dispatch_backspace[OF assms(2)]
  have first: "handleBackspace st = \<lparr>handled = True, dispatched = Some ?changes\<rparr>"
    using handleBackspace_outcome[OF assms(1,2)] assms(3,4) by auto
  have mem: "backspaceEdit st r \<in> set ?changes" using assms(3,4) by auto
  have glyphs: "primaryGlyphs ?st' = primaryGlyphs st" "secondaryGlyphs ?st' = secondaryGlyphs st"
    by (simp_all add: primaryGlyphs_def secondaryGlyphs_def d(2))
  have magic: "isPrimaryMagic ?st' c = isPrimaryMagic st c" "isSecondaryMagic ?st' c = isSecondaryMagic st c" for c
    by (simp_all add: isPrimaryMagic_def isSecondaryMagic_def glyphs)
  have valid': "validSelection ?st'"
    using assms(2) by (simp add: validSelection_def list_all_iff validRange_def d(1,3))
  have active': "active (autocorrect ?st')" using assms(1) by (simp add: d(2))
  have none: "\<not> backspaceHandles ?st' x" if x: "x \<in> set (selection st)" for x
  proof (cases "backspaceHandles st x")
    case True
    then have "charBeforeRange ?st' x = plainQuoteFor st x" using x by (intro d(4))
    then show ?thesis
      using plainQuote_not_magic[OF assms(5,6), of st x] by (simp add: backspaceHandles_def magic)
  next
    case False
    show ?thesis
    proof (cases "range_from x = 0")
      case True
      then show ?thesis by (simp add: backspaceHandles_def)
    next
      case nz: False
      then have "charBeforeRange ?st' x = charBeforeRange st x" using x False by (intro d(5))
      with False show ?thesis by (simp add: backspaceHandles_def magic)
    qed
  qed
  then have "filter (backspaceHandles ?st') (selection ?st') = []"
    by (simp add: d(1) filter_empty_conv)
  moreover have "\<not> (\<exists>x\<in>set (selection ?st'). backspaceHandles ?st' x)"
    using none by (simp add: d(1))
  ultimately have second: "handleBackspace ?st' = \<lparr>handled = False, dispatched = Some []\<rparr>"
    using handleBackspace_outcome[OF active' valid'] by simp
  have char: "charBeforeRange ?st' r = plainQuoteFor st r" using assms(3,4) by (intro d(4))
  have "doc (dispatchChanges ?st' []) = doc ?st'"
    by (simp add: dispatchChanges_def applyChanges_def)
  with first mem char second show ?thesis by blast
qed

theorem backspace_downgrade_once_witness:
  "handleBackspace ex_quotes =
     \<lparr>handled = True, dispatched = Some [\<lparr>change_from = 1, change_to = 2, change_insert = str_dquote\<rparr>]\<rparr> \<and>
   doc (dispatchChanges ex_quotes [\<lparr>change_from = 1, change_to = 2, change_insert = str_dquote\<rparr>])
     = [0x61, 0x22, 0x62] \<and>
   handleBackspace (dispatchChanges ex_quotes [\<lparr>change_from = 1, change_to = 2, change_insert = str_dquote\<rparr>])
     = \<lparr>handled = False, dispatched = Some []\<rparr>"
proof -
  let ?r = "\<lparr>range_from = 2, range_to = 2\<rparr>"
  let ?c = "\<lparr>change_from = 1, change_to = 2, change_insert = str_dquote\<rparr>"
  have h1: "active (autocorrect ex_quotes)" by (simp add: ex_quotes_def ex_config_def)
  have h2: "validSelection ex_quotes"
    by (simp add: ex_quotes_def validSelection_def validRange_def)
  have h3: "?r \<in> set (selection ex_quotes)" by (simp add: ex_quotes_def)
  have h4: "backspaceHandles ex_quotes ?r"
    by (simp add: ex_quotes_def ex_config_def backspaceHandles_def isPrimaryMagic_def
        isSecondaryMagic_def primaryGlyphs_def secondaryGlyphs_def charBeforeRange_def str_defs)
  have h5: "str_dquote \<notin> set (secondaryGlyphs ex_quotes)"
    by (simp add: ex_quotes_def ex_config_def secondaryGlyphs_def str_defs)
  have h6: "str_squote \<notin> set (primaryGlyphs ex_quotes)"
    by (simp add: ex_quotes_def ex_config_def primaryGlyphs_def str_defs)
  have h7: "distinct (map range_from (selection ex_quotes))" by (simp add: ex_quotes_def)
  from backspace_downgrade_once[OF h1 h2 h3 h4 h5 h6 h7] obtain changes where
    c: "handleBackspace ex_quotes = \<lparr>handled = True, dispatched = Some changes\<rparr>"
       "handleBackspace (dispatchChanges ex_quotes changes) = \<lparr>handled = False, dispatched = Some []\<rparr>"
    by blast
  have "handleBackspace ex_quotes = \<lparr>handled = True, dispatched = Some [?c]\<rparr>"
    by (simp add: ex_quotes_def ex_config_def handleBackspace_def backspaceRange_def sliceDoc_def str_defs)
  with c(1) have "changes = [?c]" by simp
  moreover have "doc (dispatchChanges ex_quotes [?c]) = [0x61, 0x22, 0x62]"
    by (simp add: ex_quotes_def dispatchChanges_def applyChanges_def applyChange_def str_defs)
  ultimately show ?thesis using c by simp
qed

text \<open>
  Claim C9 on the code.  With primary glyphs of two code units, the quote key at the start
  of the empty document inserts the start glyph and puts the cursor behind it.  The
  backspace in that state reads the one code unit in front of the cursor, which is not a
  glyph: it reports not handled and dispatches no change, so the directional quote is not
  replaced by the plain quote.
\<close>

theorem backspace_misses_long_glyph:
  "handleQuote str_dquote ex_long_start =
     Inr \<lparr>handled = True,
          dispatched = Some [\<lparr>res_range = \<lparr>range_from = 2, range_to = 2\<rparr>,
                              res_changes = \<lparr>change_from = 0, change_to = 0,
                                             change_insert = [0x60, 0x60]\<rparr>\<rparr>]\<rparr> \<and>
   applyChange (doc ex_long_start) \<lparr>change_from = 0, change_to = 0, change_insert = [0x60, 0x60]\<rparr>
     = doc ex_long_typed \<and>
   selection ex_long_typed = [\<lparr>range_from = 2, range_to = 2\<rparr>] \<and>
   primaryGlyphs ex_long_typed = [[0x60, 0x60], [0x27, 0x27]] \<and>
   sliceDoc (doc ex_long_typed) 0 2 = [0x60, 0x60] \<and>
   handleBackspace ex_long_typed = \<lparr>handled = False, dispatched = Some []\<rparr>"
  by (simp add: ex_long_start_def ex_long_typed_def ex_long_glyphs_def plainTree_def
      handleQuote_def quoteRange_def quote_at_def range_empty_def EditorSelection_cursor_def
      primaryGlyphs_def handleBackspace_def backspaceRange_def sliceDoc_def applyChange_def
      str_defs)

subsection \<open>The quote key\<close>

lemma str_includes_startChars_empty: "str_includes startChars []"
  by (simp add: startChars_def)

lemma str_includes_startChars_single:
  "str_includes startChars [c] \<longleftrightarrow> c \<in> {0x20, 0x28, 0x5B, 0x7B, 0x2D, 0x2013, 0x2014}"
  by (auto simp: startChars_def)

lemma sliceDoc_at_start: "sliceDoc d (- 1) 0 = []"
  by (simp add: sliceDoc_def)

lemma changeByRange_map:
  "\<forall>r\<in>set rs. f r = Inr (g r) \<Longrightarrow> changeByRange f rs = Inr (map g rs)"
  by (induction rs) auto

lemma quote_at_two:
  "2 \<le> length quotes \<Longrightarrow> quote_at quotes 0 = Some (quotes ! 0) \<and> quote_at quotes 1 = Some (quotes ! 1)"
  by (auto simp: quote_at_def)

lemma quoteRange_returns:
  assumes "2 \<le> length quotes"
  shows "\<exists>res. quoteRange st quotes r = Inr res"
  using quote_at_two[OF assms] by (simp add: quoteRange_def Let_def)


lemma handleQuote_outcome:
  assumes "active (autocorrect st)"
    and "quotes = (if quote = str_dquote then primaryGlyphs st else secondaryGlyphs st)"
    and "\<forall>r\<in>set (selection st). quoteRange st quotes r = Inr (g r)"
  shows "handleQuote quote st = Inr \<lparr>handled = True, dispatched = Some (map g (selection st))\<rparr>"
proof -
  have "changeByRange (quoteRange st quotes) (selection st) = Inr (map g (selection st))"
    using assms(3) by (rule changeByRange_map)
  then show ?thesis
    using assms(1,2)
    by (cases "quote = str_dquote")
       (simp_all add: handleQuote_def Let_def primaryGlyphs_def secondaryGlyphs_def)
qed

lemma charBefore_cursor:
  assumes "0 \<le> c" "c \<le> int (length d)"
  shows "str_includes startChars (sliceDoc d (c - 1) c) \<longleftrightarrow>
           c = 0 \<or> d ! nat (c - 1) \<in> {0x20, 0x28, 0x5B, 0x7B, 0x2D, 0x2013, 0x2014}"
proof (cases "c = 0")
  case True
  then show ?thesis by (simp add: sliceDoc_at_start str_includes_startChars_empty)
next
  case False
  with assms have "sliceDoc d (c - 1) c = [d ! nat (c - 1)]" by (intro sliceDoc_single) auto
  with False show ?thesis by (simp only: str_includes_startChars_single) simp
qed

lemma quoteRange_cursor:
  assumes "range_empty r" "validRange st r" "2 \<le> length quotes"
  shows "quoteRange st quotes r =
           Inr \<lparr>res_range = EditorSelection_cursor (range_from r + int (length
                   (if range_from r = 0 \<or> doc st ! nat (range_from r - 1) \<in> {0x20, 0x28, 0x5B, 0x7B, 0x2D, 0x2013, 0x2014}
                    then quotes ! 0 else quotes ! 1))),
                res_changes = \<lparr>change_from = range_from r, change_to = range_from r,
                  change_insert =
                   (if range_from r = 0 \<or> doc st ! nat (range_from r - 1) \<in> {0x20, 0x28, 0x5B, 0x7B, 0x2D, 0x2013, 0x2014}
                    then quotes ! 0 else quotes ! 1)\<rparr>\<rparr>"
proof -
  have c: "0 \<le> range_from r" "range_from r \<le> int (length (doc st))" "range_to r = range_from r"
    using assms(1,2) by (auto simp: validRange_def range_empty_def)
  note cb = charBefore_cursor[OF c(1,2)]
  show ?thesis
  proof (cases "range_from r = 0 \<or> doc st ! nat (range_from r - 1) \<in> {0x20, 0x28, 0x5B, 0x7B, 0x2D, 0x2013, 0x2014}")
    case True
    with cb have "str_includes startChars (sliceDoc (doc st) (range_from r - 1) (range_from r))" by simp
    with True assms(1) c(3) quote_at_two[OF assms(3)] show ?thesis
      by (simp add: quoteRange_def Let_def)
  next
    case False
    with cb have "\<not> str_includes startChars (sliceDoc (doc st) (range_from r - 1) (range_from r))" by simp
    with False assms(1) c(3) quote_at_two[OF assms(3)] show ?thesis
      by (simp add: quoteRange_def Let_def)
  qed
qed

lemma sliceDoc_inserted:
  assumes "0 \<le> c" "c \<le> int (length d)"
  shows "sliceDoc (take (nat c) d @ g @ drop (nat c) d) c (c + int (length g)) = g"
proof -
  let ?d' = "take (nat c) d @ g @ drop (nat c) d"
  have m: "min (length d) (nat c) = nat c" using assms by auto
  have dr: "drop (nat c) ?d' = g @ drop (nat c) d" by (simp add: m)
  have n: "nat (c + int (length g)) - nat c = length g" using assms by auto
  have "sliceDoc ?d' c (c + int (length g)) = take (nat (c + int (length g)) - nat c) (drop (nat c) ?d')"
    using assms by (intro sliceDoc_valid) auto
  also have "\<dots> = take (length g) (g @ drop (nat c) d)" by (simp only: dr n)
  also have "\<dots> = g" by simp
  finally show ?thesis .
qed

text \<open>
  Claim C7.  For an empty cursor, with autocorrect active and a pair of two glyphs, the
  quote key inserts at the cursor the start glyph of the pair when the cursor is at the
  start of the document or the code unit in front of it is one of space, \<^verbatim>\<open>(\<close>,
  \<^verbatim>\<open>[\<close>, \<^verbatim>\<open>{\<close>, hyphen, en dash (U+2013) and em dash (U+2014), and the end glyph
  otherwise.  The new cursor is the position behind the inserted glyph: the text between the
  old and the new cursor position is the glyph.
\<close>

theorem quote_at_cursor:
  assumes "active (autocorrect st)" and "validSelection st"
    and "selection st = pre @ r # post" and "range_empty r"
    and "quotes = (if quote = str_dquote then primaryGlyphs st else secondaryGlyphs st)"
    and "2 \<le> length quotes"
    and "glyph = (if range_from r = 0 \<or>
                     doc st ! nat (range_from r - 1) \<in> {0x20, 0x28, 0x5B, 0x7B, 0x2D, 0x2013, 0x2014}
                  then quotes ! 0 else quotes ! 1)"
    and "res = \<lparr>res_range = EditorSelection_cursor (range_from r + int (length glyph)),
                res_changes = \<lparr>change_from = range_from r, change_to = range_from r,
                               change_insert = glyph\<rparr>\<rparr>"
  shows "\<exists>before behind.
           handleQuote quote st = Inr \<lparr>handled = True, dispatched = Some (before @ res # behind)\<rparr> \<and>
           length before = length pre \<and> length behind = length post \<and>
           applyChange (doc st) (res_changes res) =
             take (nat (range_from r)) (doc st) @ glyph @ drop (nat (range_from r)) (doc st) \<and>
           sliceDoc (applyChange (doc st) (res_changes res)) (range_from r) (range_from (res_range res))
             = glyph"
proof -
  let ?g = "\<lambda>x. projr (quoteRange st quotes x)"
  have v: "validRange st r" using assms(2,3) by (simp add: validSelection_def)
  have "\<forall>x\<in>set (selection st). quoteRange st quotes x = Inr (?g x)"
    using quoteRange_returns[OF assms(6)] by (metis sum.sel(2))
  from handleQuote_outcome[OF assms(1,5) this]
  have "handleQuote quote st =
      Inr \<lparr>handled = True, dispatched = Some (map ?g pre @ ?g r # map ?g post)\<rparr>"
    by (simp add: assms(3))
  moreover have "?g r = res"
    using quoteRange_cursor[OF assms(4) v assms(6)] assms(7,8) by simp
  moreover have a: "applyChange (doc st) (res_changes res) =
             take (nat (range_from r)) (doc st) @ glyph @ drop (nat (range_from r)) (doc st)"
    by (simp add: assms(8) applyChange_def)
  moreover have "sliceDoc (applyChange (doc st) (res_changes res)) (range_from r) (range_from (res_range res))
             = glyph"
    unfolding a using v
    by (simp add: assms(8) EditorSelection_cursor_def validRange_def sliceDoc_inserted)
  ultimately show ?thesis by (metis length_map)
qed

theorem quote_at_cursor_witness:
  "handleQuote str_dquote ex_doc_start =
     Inr \<lparr>handled = True,
          dispatched = Some [\<lparr>res_range = \<lparr>range_from = 1, range_to = 1\<rparr>,
                              res_changes = \<lparr>change_from = 0, change_to = 0, change_insert = [0x201C]\<rparr>\<rparr>]\<rparr> \<and>
   handleQuote str_dquote ex_after_letter =
     Inr \<lparr>handled = True,
          dispatched = Some [\<lparr>res_range = \<lparr>range_from = 2, range_to = 2\<rparr>,
                              res_changes = \<lparr>change_from = 1, change_to = 1, change_insert = [0x201D]\<rparr>\<rparr>]\<rparr>"
proof -
  let ?r0 = "\<lparr>range_from = 0, range_to = 0\<rparr>"
  let ?r1 = "\<lparr>range_from = 1, range_to = 1\<rparr>"
  let ?quotes = "[[0x201C], [0x201D]] :: jsstring list"
  let ?res0 = "\<lparr>res_range = EditorSelection_cursor (range_from ?r0 + int (length [0x201C :: jschar])),
      res_changes = \<lparr>change_from = range_from ?r0, change_to = range_from ?r0, change_insert = [0x201C]\<rparr>\<rparr>"
  let ?res1 = "\<lparr>res_range = EditorSelection_cursor (range_from ?r1 + int (length [0x201D :: jschar])),
      res_changes = \<lparr>change_from = range_from ?r1, change_to = range_from ?r1, change_insert = [0x201D]\<rparr>\<rparr>"
  have a1: "active (autocorrect ex_doc_start)" by (simp add: ex_doc_start_def ex_config_def)
  have a2: "validSelection ex_doc_start"
    by (simp add: ex_doc_start_def validSelection_def validRange_def)
  have a3: "selection ex_doc_start = [] @ ?r0 # []" by (simp add: ex_doc_start_def)
  have a4: "range_empty ?r0" by (simp add: range_empty_def)
  have a5: "?quotes = (if str_dquote = str_dquote then primaryGlyphs ex_doc_start
                       else secondaryGlyphs ex_doc_start)"
    by (simp add: ex_doc_start_def ex_config_def primaryGlyphs_def str_defs)
  have a6: "2 \<le> length ?quotes" by simp
  have a7: "[0x201C] = (if range_from ?r0 = 0 \<or>
                     doc ex_doc_start ! nat (range_from ?r0 - 1) \<in> {0x20, 0x28, 0x5B, 0x7B, 0x2D, 0x2013, 0x2014}
                  then ?quotes ! 0 else ?quotes ! 1)"
    by simp
  from quote_at_cursor[OF a1 a2 a3 a4 a5 a6 a7 refl] obtain before behind where
    A: "handleQuote str_dquote ex_doc_start =
          Inr \<lparr>handled = True, dispatched = Some (before @ ?res0 # behind)\<rparr>"
       "length before = length ([] :: SelectionRange list)"
       "length behind = length ([] :: SelectionRange list)"
    by blast
  have b1: "active (autocorrect ex_after_letter)" by (simp add: ex_after_letter_def ex_config_def)
  have b2: "validSelection ex_after_letter"
    by (simp add: ex_after_letter_def validSelection_def validRange_def)
  have b3: "selection ex_after_letter = [] @ ?r1 # []" by (simp add: ex_after_letter_def)
  have b4: "range_empty ?r1" by (simp add: range_empty_def)
  have b5: "?quotes = (if str_dquote = str_dquote then primaryGlyphs ex_after_letter
                       else secondaryGlyphs ex_after_letter)"
    by (simp add: ex_after_letter_def ex_config_def primaryGlyphs_def str_defs)
  have b7: "[0x201D] = (if range_from ?r1 = 0 \<or>
                     doc ex_after_letter ! nat (range_from ?r1 - 1) \<in> {0x20, 0x28, 0x5B, 0x7B, 0x2D, 0x2013, 0x2014}
                  then ?quotes ! 0 else ?quotes ! 1)"
    by (simp add: ex_after_letter_def)
  from quote_at_cursor[OF b1 b2 b3 b4 b5 a6 b7 refl] obtain before' behind' where
    B: "handleQuote str_dquote ex_after_letter =
          Inr \<lparr>handled = True, dispatched = Some (before' @ ?res1 # behind')\<rparr>"
       "length before' = length ([] :: SelectionRange list)"
       "length behind' = length ([] :: SelectionRange list)"
    by blast
  from A B show ?thesis by (simp add: EditorSelection_cursor_def)
qed

text \<open>
  Claim C4, as amended.  The handler of the quote key returns true exactly when the
  autocorrect configuration is active, and it dispatches a transaction exactly then (the
  pair for the pressed quote having its two glyphs).
\<close>

theorem quote_handled_iff_active:
  assumes "active (autocorrect st) \<longrightarrow>
           2 \<le> length (if quote = str_dquote then primaryGlyphs st else secondaryGlyphs st)"
  shows "\<exists>tr. handleQuote quote st = Inr \<lparr>handled = active (autocorrect st), dispatched = tr\<rparr> \<and>
              (tr = None \<longleftrightarrow> \<not> active (autocorrect st))"
proof (cases "active (autocorrect st)")
  case True
  let ?quotes = "if quote = str_dquote then primaryGlyphs st else secondaryGlyphs st"
  let ?g = "\<lambda>x. projr (quoteRange st ?quotes x)"
  from True assms have "2 \<le> length ?quotes" by simp
  then have "\<forall>x\<in>set (selection st). quoteRange st ?quotes x = Inr (?g x)"
    using quoteRange_returns by (metis sum.sel(2))
  from handleQuote_outcome[OF True refl this] True show ?thesis by simp
next
  case False
  then show ?thesis by (simp add: handleQuote_def)
qed

theorem quote_handled_iff_active_witness:
  "map_sum id handled (handleQuote str_dquote ex_quotes) = Inr True"
proof -
  have a: "active (autocorrect ex_quotes)" by (simp add: ex_quotes_def ex_config_def)
  have "active (autocorrect ex_quotes) \<longrightarrow>
           2 \<le> length (if str_dquote = str_dquote then primaryGlyphs ex_quotes else secondaryGlyphs ex_quotes)"
    by (simp add: ex_quotes_def ex_config_def primaryGlyphs_def str_defs)
  from quote_handled_iff_active[OF this] a show ?thesis by auto
qed

text \<open>
  Claim C4 as stated fails: with an inactive configuration the handler returns false and
  dispatches nothing.
\<close>

theorem quote_inactive_counterexample:
  "\<not> active (autocorrect ex_inactive) \<and>
   handleQuote str_dquote ex_inactive = Inr \<lparr>handled = False, dispatched = None\<rparr>"
  by (simp add: ex_inactive_def ex_config_def handleQuote_def)


lemma quoteRange_selection:
  assumes "\<not> range_empty r" "2 \<le> length quotes"
  shows "quoteRange st quotes r =
           Inr \<lparr>res_range = EditorSelection_range (range_from r + int (length (quotes ! 0)))
                                                  (range_to r + int (length (quotes ! 1))),
                res_changes = \<lparr>change_from = range_from r, change_to = range_to r,
                               change_insert = quotes ! 0 @ sliceDoc (doc st) (range_from r) (range_to r)
                                               @ quotes ! 1\<rparr>\<rparr>"
  using assms(1) quote_at_two[OF assms(2)] by (simp add: quoteRange_def Let_def)

text \<open>
  Wrapping a selection: when both glyphs of the pair have the same length, the new
  selection covers the original text.
\<close>

lemma quote_wrap_equal_lengths:
  assumes "validRange st r" "\<not> range_empty r" "2 \<le> length quotes"
    and "length (quotes ! 0) = length (quotes ! 1)"
  shows "\<exists>res. quoteRange st quotes r = Inr res \<and>
           sliceDoc (applyChange (doc st) (res_changes res))
                    (range_from (res_range res)) (range_to (res_range res))
             = sliceDoc (doc st) (range_from r) (range_to r)"
proof -
  let ?f = "range_from r" and ?t = "range_to r" and ?d = "doc st"
  let ?q0 = "quotes ! 0" and ?q1 = "quotes ! 1"
  let ?txt = "sliceDoc ?d ?f ?t"
  let ?d' = "take (nat ?f) ?d @ (?q0 @ ?txt @ ?q1) @ drop (nat ?t) ?d"
  have v: "0 \<le> ?f" "?f \<le> ?t" "?t \<le> int (length ?d)"
    using assms(1) by (auto simp: validRange_def)
  have tx: "?txt = take (nat ?t - nat ?f) (drop (nat ?f) ?d)"
    using v by (rule sliceDoc_valid)
  have ltxt: "length ?txt = nat ?t - nat ?f" using v by (simp add: tx)
  have m: "min (length ?d) (nat ?f) = nat ?f" using v by auto
  have dr: "drop (nat ?f + length ?q0) ?d' = ?txt @ ?q1 @ drop (nat ?t) ?d"
    by (simp add: m)
  have len': "?t + int (length ?q0) \<le> int (length ?d')"
    using v ltxt by (simp add: m)
  have "sliceDoc ?d' (?f + int (length ?q0)) (?t + int (length ?q0)) =
        take (nat (?t + int (length ?q0)) - nat (?f + int (length ?q0)))
             (drop (nat (?f + int (length ?q0))) ?d')"
    using v len' by (intro sliceDoc_valid) auto
  also have "nat (?t + int (length ?q0)) - nat (?f + int (length ?q0)) = length ?txt"
    using v ltxt by auto
  also have "nat (?f + int (length ?q0)) = nat ?f + length ?q0" using v by auto
  also have "take (length ?txt) (drop (nat ?f + length ?q0) ?d') = ?txt"
    by (simp only: dr) simp
  finally have "sliceDoc ?d' (?f + int (length ?q0)) (?t + int (length ?q0)) = ?txt" .
  moreover have "EditorSelection_range (?f + int (length ?q0)) (?t + int (length ?q1))
      = \<lparr>range_from = ?f + int (length ?q0), range_to = ?t + int (length ?q0)\<rparr>"
    using v assms(4) by (simp add: EditorSelection_range_def min_def max_def)
  ultimately show ?thesis
    using quoteRange_selection[OF assms(2,3), of st] by (simp add: applyChange_def)
qed

text \<open>
  Claim C3 on the code.  With a start glyph of two code units and an end glyph of one, the
  selection \<open>[0, 2)\<close> of \<^verbatim>\<open>ab\<close> is wrapped as the claim says (start glyph, the text
  unchanged, end glyph), but the new selection is \<open>[2, 3)\<close>: its end has moved by the
  length of the end glyph, not of the start glyph, and it covers \<^verbatim>\<open>a\<close> only.  The
  original text is at \<open>[2, 4)\<close>.
\<close>

theorem quote_wrap_end_shifted_by_end_glyph:
  "sliceDoc (doc ex_wrap) 0 2 = [0x61, 0x62] \<and>
   handleQuote str_dquote ex_wrap =
     Inr \<lparr>handled = True,
          dispatched = Some [\<lparr>res_range = \<lparr>range_from = 2, range_to = 3\<rparr>,
                              res_changes = \<lparr>change_from = 0, change_to = 2,
                                             change_insert = [0x60, 0x60, 0x61, 0x62, 0x22]\<rparr>\<rparr>]\<rparr> \<and>
   applyChange (doc ex_wrap) \<lparr>change_from = 0, change_to = 2, change_insert = [0x60, 0x60, 0x61, 0x62, 0x22]\<rparr>
     = [0x60, 0x60, 0x61, 0x62, 0x22] \<and>
   sliceDoc [0x60, 0x60, 0x61, 0x62, 0x22] 2 3 = [0x61] \<and>
   sliceDoc [0x60, 0x60, 0x61, 0x62, 0x22] 2 4 = [0x61, 0x62]"
  by (simp add: ex_wrap_def ex_tex_quotes_def handleQuote_def quoteRange_def quote_at_def
      range_empty_def EditorSelection_range_def sliceDoc_def applyChange_def str_defs)

text \<open>
  Neither the quote handler nor the backspace handler reads the syntax tree: their outcome
  is the same for every tree.
\<close>

lemma quote_and_backspace_ignore_tree:
  "handleQuote quote (st\<lparr>nodeName := tree\<rparr>) = handleQuote quote st \<and>
   handleBackspace (st\<lparr>nodeName := tree\<rparr>) = handleBackspace st"
proof -
  have q: "quoteRange (st\<lparr>nodeName := tree\<rparr>) quotes = quoteRange st quotes" for quotes
    by (rule ext) (simp add: quoteRange_def)
  have b: "backspaceRange (st\<lparr>nodeName := tree\<rparr>) pq sq = backspaceRange st pq sq" for pq sq
    by (rule ext) (simp add: backspaceRange_def)
  have "handleQuote quote (st\<lparr>nodeName := tree\<rparr>) = handleQuote quote st"
    by (simp add: handleQuote_def Let_def q)
  moreover have "handleBackspace (st\<lparr>nodeName := tree\<rparr>) = handleBackspace st"
    by (simp add: handleBackspace_def Let_def backspaceRanges_eq b)
  ultimately show ?thesis by blast
qed

text \<open>
  Claim C6 on the code.  In a document that is inline code throughout, the position of the
  cursor is protected (the replacement scan emits no edit for such a cursor, see
  \<open>cursorChanges_skipped\<close>), but the quote handler inserts a curly quote at the cursor and
  the backspace handler replaces the curly quote in front of it: neither of the two
  consults \<^verbatim>\<open>posInProtectedNode\<close>.
\<close>

theorem quote_and_backspace_edit_in_protected_region:
  "posInProtectedNode ex_in_code 2 \<and>
   handleQuote str_dquote ex_in_code =
     Inr \<lparr>handled = True,
          dispatched = Some [\<lparr>res_range = \<lparr>range_from = 3, range_to = 3\<rparr>,
                              res_changes = \<lparr>change_from = 2, change_to = 2, change_insert = [0x201D]\<rparr>\<rparr>]\<rparr> \<and>
   handleBackspace ex_in_code =
     \<lparr>handled = True, dispatched = Some [\<lparr>change_from = 1, change_to = 2, change_insert = [0x22]\<rparr>]\<rparr>"
  by (simp add: ex_in_code_def ex_config_def posInProtectedNode_def protectedNodes_def
      codeUpTo_def handleQuote_def quoteRange_def quote_at_def range_empty_def
      EditorSelection_cursor_def handleBackspace_def backspaceRange_def sliceDoc_def str_defs)

end
